theory Spec2Isabelle
  imports Main "HOL-Library.FSet" "HOL-Library.Multiset"
begin

section \<open>Strings as the browser sees them\<close>

text \<open>
  Strings are lists of characters. The whitespace that \<^verbatim>\<open>String.prototype.trim\<close>
  removes is, within the one-byte range, tab, line feed, vertical tab, form feed, carriage
  return, space and the no-break space.
\<close>

definition js_whitespace :: "char \<Rightarrow> bool" where
  "js_whitespace c = (c \<in> set [CHR 0x09, CHR 0x0A, CHR 0x0B, CHR 0x0C, CHR 0x0D, CHR 0x20, CHR 0xA0])"

definition trim :: "string \<Rightarrow> string" where
  "trim s = rev (dropWhile js_whitespace (rev (dropWhile js_whitespace s)))"

fun startsWith :: "string \<Rightarrow> string \<Rightarrow> bool" where
  "startsWith s [] = True"
| "startsWith [] (p # ps) = False"
| "startsWith (c # cs) (p # ps) = (c = p \<and> startsWith cs ps)"

text \<open>
  \<^verbatim>\<open>s.split(sep)\<close> for a non-empty separator: the pieces between the non-overlapping
  occurrences of \<open>sep\<close>, found from the left; the result is never empty. An empty
  separator splits into single characters.
\<close>

function split_from :: "string \<Rightarrow> string \<Rightarrow> string list" where
  "split_from sep [] = [[]]"
| "split_from sep (c # cs) =
     (if sep \<noteq> [] \<and> startsWith (c # cs) sep
      then [] # split_from sep (drop (length sep) (c # cs))
      else (case split_from sep cs of [] \<Rightarrow> [[c]] | piece # pieces \<Rightarrow> (c # piece) # pieces))"
  by pat_completeness auto
termination
  by (relation "measure (\<lambda>(sep, s). length s)") auto

declare split_from.simps [simp del]

definition split :: "string \<Rightarrow> string \<Rightarrow> string list" where
  "split s sep = (if sep = [] then map (\<lambda>c. [c]) s else split_from sep s)"

text \<open>\<^verbatim>\<open>s.replace(pat, rep)\<close> with a string pattern replaces the first occurrence only.\<close>

fun replace_first :: "string \<Rightarrow> string \<Rightarrow> string \<Rightarrow> string" where
  "replace_first pat rep [] = (if pat = [] then rep else [])"
| "replace_first pat rep (c # cs) =
     (if startsWith (c # cs) pat then rep @ drop (length pat) (c # cs)
      else c # replace_first pat rep cs)"

definition digit_char :: "nat \<Rightarrow> char" where
  "digit_char d = char_of (48 + d)"

function string_of_nat :: "nat \<Rightarrow> string" where
  "string_of_nat n =
     (if n < 10 then [digit_char n] else string_of_nat (n div 10) @ [digit_char (n mod 10)])"
  by pat_completeness auto
termination
  by (relation "measure (\<lambda>n. n)") auto

declare string_of_nat.simps [simp del]

section \<open>The data model of the web client (App.tsx)\<close>

text \<open>
  The types of the client, field by field. A field name that several types share carries a
  prefix for its type (\<open>up_id\<close>, \<open>gi_id\<close>, \<open>res_label_id\<close>, \<open>ev_batch_id\<close>), and the
  state's \<^verbatim>\<open>total\<close> is \<open>total_count\<close> here.
\<close>

datatype BeverageType = Auto | Spirits | Beer | Wine

record UploadedImage =
  up_id :: string
  up_filename :: string
  up_content_type :: string
  up_storage_key :: string
  up_size_bytes :: nat
  up_preview_url :: string

record GroupImage =
  gi_id :: string
  gi_filename :: string
  gi_storage_key :: string
  gi_preview_url :: string

record LabelGroup =
  label_id :: string
  label_name :: string
  beverage_type :: BeverageType
  images :: "GroupImage list"

datatype FieldStatus = Pass | Fail | Unreadable

record FieldResult =
  field_name :: string
  status :: FieldStatus
  extracted_value :: "string option"
  failure_reason :: "string option"
  cfr_reference :: "string option"
  found_on_image :: "nat option"

datatype OverallStatus = PASS | FAIL | ESCALATE | RETRY | ERROR

record LabelResult =
  res_label_id :: string
  res_label_name :: string
  overall_status :: OverallStatus
  res_beverage_type :: BeverageType
  res_fields :: "FieldResult list"
  escalation_reason :: "string option"
  images_processed :: nat

record BatchEvent =
  ev_batch_id :: string
  ev_completed :: nat
  ev_total :: nat
  ev_result :: LabelResult

text \<open>A file chosen in the file input: the browser reports its name and its content type.\<close>

record LocalFile =
  file_name :: string
  file_type :: string

definition MAX_BATCH :: nat where
  "MAX_BATCH = 100"

text \<open>The component's state: one field for each \<^verbatim>\<open>useState\<close> cell.\<close>

record AppState =
  files :: "LocalFile list option"
  uploaded :: "UploadedImage list"
  selectedIds :: "string fset"
  groups :: "LabelGroup list"
  labelName :: string
  labelNameEdited :: bool
  beverageType :: BeverageType
  results :: "LabelResult list"
  batchId :: string
  completed :: nat
  total_count :: nat
  busy :: bool
  error :: string

definition initial_state :: AppState where
  "initial_state =
     \<lparr>files = None, uploaded = [], selectedIds = {||}, groups = [], labelName = [],
      labelNameEdited = False, beverageType = Auto, results = [], batchId = [],
      completed = 0, total_count = 0, busy = False, error = []\<rparr>"

subsection \<open>Label names\<close>

text \<open>
  \<^verbatim>\<open>filename.replace(/\.[^.]+$/, "")\<close> removes the last dot and what follows it,
  when at least one character follows it.
\<close>

definition strip_extension :: "string \<Rightarrow> string" where
  "strip_extension s =
     (let ext = takeWhile (\<lambda>c. c \<noteq> CHR ''.'') (rev s)
      in if length ext < length s \<and> ext \<noteq> [] then take (length s - length ext - 1) s else s)"

definition is_separator :: "char \<Rightarrow> bool" where
  "is_separator c = (c = CHR ''_'' \<or> c = CHR ''-'')"

text \<open>\<^verbatim>\<open>.replace(/[_-]+/g, " ")\<close>: every run of underscores and hyphens becomes one space.\<close>

function replace_separators :: "string \<Rightarrow> string" where
  "replace_separators [] = []"
| "replace_separators (c # cs) =
     (if is_separator c then CHR '' '' # replace_separators (dropWhile is_separator cs)
      else c # replace_separators cs)"
  by pat_completeness auto
termination
  by (relation "measure length") (auto simp: length_dropWhile_le less_Suc_eq_le)

declare replace_separators.simps [simp del]

definition baseLabelName :: "string \<Rightarrow> string" where
  "baseLabelName filename =
     (let name = trim (replace_separators (strip_extension filename))
      in if name = [] then ''Untitled Label'' else name)"

text \<open>\<open>suggestedLabelName\<close> reads only the file names of the images it is given.\<close>

definition suggestedLabelName :: "string list \<Rightarrow> string" where
  "suggestedLabelName filenames =
     (case filenames of
        [] \<Rightarrow> []
      | [f] \<Rightarrow> baseLabelName f
      | f # _ \<Rightarrow> baseLabelName f @ '' +'' @ string_of_nat (length filenames - 1) @ '' image(s)'')"

subsection \<open>Derived values\<close>

definition selectedImages :: "AppState \<Rightarrow> UploadedImage list" where
  "selectedImages st = filter (\<lambda>item. up_id item |\<in>| selectedIds st) (uploaded st)"

definition poolImages :: "AppState \<Rightarrow> UploadedImage list" where
  "poolImages st =
     (let groupedIds = set (concat (map (\<lambda>g. map gi_id (images g)) (groups st)))
      in filter (\<lambda>item. up_id item \<notin> groupedIds) (uploaded st))"

text \<open>The index is filled in the order of the groups, so a later group with the same id wins.\<close>

definition groupByLabelId :: "LabelGroup list \<Rightarrow> (string \<rightharpoonup> LabelGroup)" where
  "groupByLabelId gs = foldl (\<lambda>index group. index(label_id group \<mapsto> group)) Map.empty gs"

text \<open>
  The effect that follows every render: unless the user has edited the name, the name field
  shows the suggestion for the current selection.
\<close>

definition labelNameEffect :: "AppState \<Rightarrow> AppState" where
  "labelNameEffect st =
     (if labelNameEdited st then st
      else st\<lparr>labelName := suggestedLabelName (map up_filename (selectedImages st))\<rparr>)"

subsection \<open>Selecting images\<close>

definition toggleSelection_update :: "string \<Rightarrow> string fset \<Rightarrow> string fset" where
  "toggleSelection_update i prev =
     (if i |\<in>| prev then prev |-| {|i|}
      else if 3 \<le> fcard prev then prev
      else finsert i prev)"

definition toggleSelection :: "string \<Rightarrow> AppState \<Rightarrow> AppState" where
  "toggleSelection i st = st\<lparr>selectedIds := toggleSelection_update i (selectedIds st)\<rparr>"

definition toGroupImage :: "UploadedImage \<Rightarrow> GroupImage" where
  "toGroupImage img =
     \<lparr>gi_id = up_id img, gi_filename = up_filename img,
      gi_storage_key = up_storage_key img, gi_preview_url = up_preview_url img\<rparr>"

subsection \<open>Uploading\<close>

text \<open>
  What \<^verbatim>\<open>fetch("/upload")\<close> can give back: the call fails outright (or the body of a
  successful answer cannot be read), the answer is not ok and carries an optional detail,
  or the answer is ok and lists the stored images, which have no preview yet.
\<close>

record StoredImage =
  st_id :: string
  st_filename :: string
  st_content_type :: string
  st_storage_key :: string
  st_size_bytes :: nat

datatype UploadResponse =
    UploadThrows
  | UploadNotOk "string option"
  | UploadOk "StoredImage list"

definition allowed_types :: "string list" where
  "allowed_types = [''image/jpeg'', ''image/png'']"

text \<open>
  The loop that fills the form: it stops at the first file whose type is not allowed and
  gives that file's name.
\<close>

fun fill_form :: "LocalFile list \<Rightarrow> LocalFile list \<Rightarrow> string + LocalFile list" where
  "fill_form form [] = Inr form"
| "fill_form form (f # fs) =
     (if file_type f \<notin> set allowed_types then Inl (file_name f)
      else fill_form (form @ [f]) fs)"

definition merge_previews ::
  "(LocalFile \<Rightarrow> string) \<Rightarrow> LocalFile list \<Rightarrow> StoredImage list \<Rightarrow> UploadedImage list" where
  "merge_previews createObjectURL localFiles data =
     map (\<lambda>(item, idx).
            \<lparr>up_id = st_id item, up_filename = st_filename item,
             up_content_type = st_content_type item, up_storage_key = st_storage_key item,
             up_size_bytes = st_size_bytes item,
             up_preview_url = createObjectURL (localFiles ! idx)\<rparr>)
         (zip data [0 ..< length data])"

text \<open>
  \<open>uploadFiles\<close> returns the new state and the request it sent, if it sent one. An answer
  that lists more images than files were sent makes \<^verbatim>\<open>createObjectURL\<close> throw on a
  missing file, which leaves the state as it was after the error was cleared.
\<close>

definition uploadFiles ::
  "(LocalFile list \<Rightarrow> UploadResponse) \<Rightarrow> (LocalFile \<Rightarrow> string) \<Rightarrow> AppState
     \<Rightarrow> AppState \<times> LocalFile list option" where
  "uploadFiles server createObjectURL st =
     (let st0 = st\<lparr>error := []\<rparr> in
      case files st of
        None \<Rightarrow> (st0\<lparr>error := ''Choose at least one JPEG or PNG image.''\<rparr>, None)
      | Some localFiles \<Rightarrow>
          if localFiles = [] then (st0\<lparr>error := ''Choose at least one JPEG or PNG image.''\<rparr>, None)
          else
            (case fill_form [] localFiles of
               Inl name \<Rightarrow>
                 (st0\<lparr>error := ''Unsupported file type: '' @ name @ ''. Only JPEG/PNG allowed.''\<rparr>,
                  None)
             | Inr form \<Rightarrow>
                 (case server form of
                    UploadThrows \<Rightarrow> (st0, Some form)
                  | UploadNotOk detail \<Rightarrow>
                      (st0\<lparr>error := (case detail of Some d \<Rightarrow> d | None \<Rightarrow> ''Upload failed'')\<rparr>,
                       Some form)
                  | UploadOk data \<Rightarrow>
                      if length localFiles < length data then (st0, Some form)
                      else
                        (st0\<lparr>uploaded := uploaded st @ merge_previews createObjectURL localFiles data,
                             files := None\<rparr>,
                         Some form))))"

subsection \<open>Building the batch\<close>

text \<open>The fresh identifier of \<^verbatim>\<open>crypto.randomUUID()\<close> is an argument.\<close>

definition createGroup :: "string \<Rightarrow> AppState \<Rightarrow> AppState" where
  "createGroup uuid st =
     (let st0 = st\<lparr>error := []\<rparr>; sel = selectedImages st in
      if length sel < 1 \<or> 3 < length sel
      then st0\<lparr>error := ''Select 1 to 3 images to create a label group.''\<rparr>
      else if MAX_BATCH \<le> length (groups st)
      then st0\<lparr>error := ''Batch already has 100 labels.''\<rparr>
      else
        (let finalName = (if trim (labelName st) \<noteq> [] then trim (labelName st)
                          else suggestedLabelName (map up_filename sel))
         in st0\<lparr>groups := groups st @
                     [\<lparr>label_id = uuid, label_name = finalName,
                       beverage_type = beverageType st, images = map toGroupImage sel\<rparr>],
                 labelName := [], labelNameEdited := False, selectedIds := {||}\<rparr>))"

text \<open>Here one identifier is drawn for each new group: \<open>uuids k\<close> for the \<open>k\<close>-th of them.\<close>

definition createSinglesFromPool :: "(nat \<Rightarrow> string) \<Rightarrow> AppState \<Rightarrow> AppState" where
  "createSinglesFromPool uuids st =
     (let st0 = st\<lparr>error := []\<rparr> in
      if poolImages st = [] then st0\<lparr>error := ''No ungrouped images available.''\<rparr>
      else if MAX_BATCH \<le> length (groups st)
      then st0\<lparr>error := ''Batch already has 100 labels.''\<rparr>
      else
        (let capacity = MAX_BATCH - length (groups st);
             target = take capacity (poolImages st);
             newGroups = map (\<lambda>(img, k).
                                \<lparr>label_id = uuids k, label_name = baseLabelName (up_filename img),
                                 beverage_type = beverageType st, images = [toGroupImage img]\<rparr>)
                             (zip target [0 ..< length target])
         in st0\<lparr>groups := groups st @ newGroups, selectedIds := {||},
                 labelName := [], labelNameEdited := False\<rparr>))"

definition removeGroup :: "string \<Rightarrow> AppState \<Rightarrow> AppState" where
  "removeGroup i st = st\<lparr>groups := filter (\<lambda>g. label_id g \<noteq> i) (groups st)\<rparr>"

definition removeUngroupedImage :: "string \<Rightarrow> AppState \<Rightarrow> AppState" where
  "removeUngroupedImage i st =
     st\<lparr>uploaded := filter (\<lambda>img. up_id img \<noteq> i) (uploaded st),
        selectedIds := selectedIds st |-| {|i|}\<rparr>"

definition removeResult :: "string \<Rightarrow> AppState \<Rightarrow> AppState" where
  "removeResult labelId st =
     st\<lparr>results := filter (\<lambda>result. res_label_id result \<noteq> labelId) (results st)\<rparr>"

subsection \<open>Reading the result stream\<close>

text \<open>
  \<^verbatim>\<open>JSON.parse\<close> is an argument: it gives the event, an object of the declared shape,
  or the message of the error it throws. Every value thrown while the stream is read is an
  error with a message. The chunks of the response body are taken as already decoded text.
\<close>

type_synonym parser = "string \<Rightarrow> string + BatchEvent"

text \<open>
  One block of the stream. A block with no \<^verbatim>\<open>data: \<close> line and a block whose payload is
  \<^verbatim>\<open>done\<close> are passed over; any other payload is parsed and its event stored, the result
  in front of the earlier ones. \<open>Inl\<close> is the message of a thrown error.
\<close>

definition data_payload :: "string \<Rightarrow> string option" where
  "data_payload block =
     (case find (\<lambda>line. startsWith line ''data: '') (split block ''\<newline>'') of
        None \<Rightarrow> None
      | Some dataLine \<Rightarrow> Some (trim (replace_first ''data: '' [] dataLine)))"

definition handle_block :: "parser \<Rightarrow> string \<Rightarrow> AppState \<Rightarrow> string + AppState" where
  "handle_block parse block st =
     (case data_payload block of
        None \<Rightarrow> Inr st
      | Some payload \<Rightarrow>
          if payload = ''done'' then Inr st
          else
            (case parse payload of
               Inl message \<Rightarrow> Inl message
             | Inr event \<Rightarrow>
                 Inr (st\<lparr>batchId := ev_batch_id event, completed := ev_completed event,
                         total_count := ev_total event,
                         results := ev_result event # results st\<rparr>)))"

text \<open>
  The inner \<^verbatim>\<open>for\<close> loop. What was stored before an error is thrown stays stored, so the
  state is returned together with the message of the error, if there is one.
\<close>

fun handle_blocks :: "parser \<Rightarrow> string list \<Rightarrow> AppState \<Rightarrow> AppState \<times> string option" where
  "handle_blocks parse [] st = (st, None)"
| "handle_blocks parse (block # rest) st =
     (case handle_block parse block st of
        Inl message \<Rightarrow> (st, Some message)
      | Inr st' \<Rightarrow> handle_blocks parse rest st')"

text \<open>
  The \<^verbatim>\<open>while (true)\<close> loop over the chunks that \<^verbatim>\<open>reader.read()\<close> delivers; it
  leaves at \<^verbatim>\<open>done\<close>, that is, when the chunks are used up. The text after the last
  blank line waits in the buffer for the next chunk.
\<close>

fun read_loop :: "parser \<Rightarrow> string list \<Rightarrow> string \<Rightarrow> AppState \<Rightarrow> AppState \<times> string option" where
  "read_loop parse [] buffer st = (st, None)"
| "read_loop parse (chunk # rest) buffer st =
     (let parts = split (buffer @ chunk) ''\<newline>\<newline>'' in
      case handle_blocks parse (butlast parts) st of
        (st', Some message) \<Rightarrow> (st', Some message)
      | (st', None) \<Rightarrow> read_loop parse rest (last parts) st')"

text \<open>
  How the transport ends after its chunks: the reader reports \<^verbatim>\<open>done\<close>, or a read fails
  with an error (a reset connection, for one).
\<close>

datatype StreamEnd = EndOfStream | ReadFails string

datatype VerifyResponse =
    VerifyThrows string
  | VerifyNotOk "string option"
  | VerifyStream "string list" StreamEnd

type_synonym RequestLabel = "string \<times> string \<times> BeverageType \<times> (string \<times> string \<times> string) list"

definition requestLabels :: "LabelGroup list \<Rightarrow> RequestLabel list" where
  "requestLabels gs =
     map (\<lambda>group. (label_id group, label_name group, beverage_type group,
                    map (\<lambda>image. (gi_id image, gi_filename image, gi_storage_key image))
                        (images group))) gs"

definition startVerification ::
  "parser \<Rightarrow> (RequestLabel list \<Rightarrow> VerifyResponse) \<Rightarrow> AppState \<Rightarrow> AppState" where
  "startVerification parse server st =
     (let st1 = st\<lparr>error := [], results := [], batchId := [], completed := 0,
                   total_count := length (groups st)\<rparr> in
      if groups st = [] then st1\<lparr>error := ''Create at least one label group first.''\<rparr>
      else
        (let st2 = st1\<lparr>busy := True\<rparr>;
             (st3, thrown) =
               (case server (requestLabels (groups st)) of
                  VerifyThrows message \<Rightarrow> (st2, Some message)
                | VerifyNotOk detail \<Rightarrow>
                    (st2, Some (case detail of Some d \<Rightarrow> d | None \<Rightarrow> ''Verification failed''))
                | VerifyStream chunks ending \<Rightarrow>
                    (case read_loop parse chunks [] st2 of
                       (s, Some message) \<Rightarrow> (s, Some message)
                     | (s, None) \<Rightarrow>
                         (case ending of
                            EndOfStream \<Rightarrow> (s, None)
                          | ReadFails message \<Rightarrow> (s, Some message))));
             st4 = (case thrown of None \<Rightarrow> st3 | Some message \<Rightarrow> st3\<lparr>error := message\<rparr>)
         in st4\<lparr>busy := False\<rparr>))"

subsection \<open>Showing the results\<close>

text \<open>
  Each result card looks its group up by the result's \<open>label_id\<close>; the position of the
  result in the list serves only as part of the card's key.
\<close>

definition result_cards :: "AppState \<Rightarrow> (LabelResult \<times> LabelGroup option) list" where
  "result_cards st =
     map (\<lambda>(result, idx). (result, groupByLabelId (groups st) (res_label_id result)))
         (zip (results st) [0 ..< length (results st)])"

subsection \<open>The client as a transition system\<close>

datatype Action =
    SetFiles "LocalFile list option"
  | UploadFiles "LocalFile list \<Rightarrow> UploadResponse"
  | ToggleSelection string
  | SetLabelName string
  | SetBeverageType BeverageType
  | CreateGroup string
  | CreateSinglesFromPool "nat \<Rightarrow> string"
  | StartVerification "RequestLabel list \<Rightarrow> VerifyResponse"
  | RemoveGroup string
  | RemoveUngroupedImage string
  | RemoveResult string

text \<open>
  One user action, followed by the effect that keeps the suggested name up to date. The
  handlers are taken one at a time: each sees the state that the one before it has left.
\<close>

definition step :: "parser \<Rightarrow> (LocalFile \<Rightarrow> string) \<Rightarrow> AppState \<Rightarrow> Action \<Rightarrow> AppState" where
  "step parse createObjectURL st a =
     labelNameEffect
       (case a of
          SetFiles fs \<Rightarrow> st\<lparr>files := fs\<rparr>
        | UploadFiles server \<Rightarrow> fst (uploadFiles server createObjectURL st)
        | ToggleSelection i \<Rightarrow> toggleSelection i st
        | SetLabelName name \<Rightarrow> st\<lparr>labelName := name, labelNameEdited := True\<rparr>
        | SetBeverageType b \<Rightarrow> st\<lparr>beverageType := b\<rparr>
        | CreateGroup uuid \<Rightarrow> createGroup uuid st
        | CreateSinglesFromPool uuids \<Rightarrow> createSinglesFromPool uuids st
        | StartVerification server \<Rightarrow> startVerification parse server st
        | RemoveGroup i \<Rightarrow> removeGroup i st
        | RemoveUngroupedImage i \<Rightarrow> removeUngroupedImage i st
        | RemoveResult i \<Rightarrow> removeResult i st)"

definition run :: "parser \<Rightarrow> (LocalFile \<Rightarrow> string) \<Rightarrow> Action list \<Rightarrow> AppState" where
  "run parse createObjectURL actions = foldl (step parse createObjectURL) initial_state actions"

section \<open>The verification pipeline\<close>

text \<open>
  The Python services that verify a label (the warning validator, the extraction flow and
  the status resolution) are not among the sources. The definitions of this section follow
  the specification's sections 4.1 to 4.5.
\<close>

subsection \<open>The Government Warning matcher\<close>

text \<open>
  Modelled from the spec: the field-level classifications of section 4.4, which the missing
  validators assign: pass, fail, unreadable, and escalate-classified.
\<close>

datatype FieldVerdict = VPass | VFail | VUnreadable | VEscalate

definition is_space :: "char \<Rightarrow> bool" where
  "is_space c = (c \<in> set [CHR 0x20, CHR 0x09, CHR 0x0A, CHR 0x0B, CHR 0x0C, CHR 0x0D])"

text \<open>
  Modelled from the spec: the whitespace normalisation of the missing warning validator
  (section 4.1: it "normalizes whitespace/line breaks in the extracted warning text"). The
  text is cut into its words at every run of blanks and line breaks, and the words are
  joined again with single spaces.
\<close>

fun words_from :: "string \<Rightarrow> string \<Rightarrow> string list" where
  "words_from acc [] = (if acc = [] then [] else [rev acc])"
| "words_from acc (c # cs) =
     (if is_space c then (if acc = [] then words_from [] cs else rev acc # words_from [] cs)
      else words_from (c # acc) cs)"

fun join_words :: "string list \<Rightarrow> string" where
  "join_words [] = []"
| "join_words [w] = w"
| "join_words (w # ws) = w @ CHR '' '' # join_words ws"

definition normalize_whitespace :: "string \<Rightarrow> string" where
  "normalize_whitespace text = join_words (words_from [] text)"

text \<open>
  Modelled from the spec: the one canonical string of section 4.1, the heading and the two
  numbered clauses in order. Its wording is the statement of 27 CFR Part 16 as the product
  requirements give it, on one line.
\<close>

definition CANONICAL_WARNING :: string where
  "CANONICAL_WARNING =
     ''GOVERNMENT WARNING: (1) According to the Surgeon General, women should not drink '' @
     ''alcoholic beverages during pregnancy because of the risk of birth defects. '' @
     ''(2) Consumption of alcoholic beverages impairs your ability to drive a car or '' @
     ''operate machinery, and may cause health problems.''"

text \<open>
  Modelled from the spec: the missing matcher of section 4.1. After the normalisation the
  text must equal the canonical string character for character; any deviation is a fail.
\<close>

definition government_warning_matcher :: "string \<Rightarrow> FieldVerdict" where
  "government_warning_matcher text =
     (if normalize_whitespace text = CANONICAL_WARNING then VPass else VFail)"

subsection \<open>The extraction state machine\<close>

text \<open>
  Modelled from the spec: the contract of the missing gateway adapter (section 4.2). A call
  names the prompt variant, the images and the fields asked for; it gives a map from field
  names to values or raises a provider error.
\<close>

datatype PromptVariant = Standard | DegradedImageSpecialized

datatype ProviderError = Timeout | MalformedResponse | AuthenticationFailure | RateLimiting

type_synonym FieldMap = "string \<Rightarrow> string option"

type_synonym Gateway =
  "PromptVariant \<Rightarrow> GroupImage list \<Rightarrow> string list \<Rightarrow> ProviderError + FieldMap"

datatype ExtractionOutcome =
    Complete FieldMap
  | Residual FieldMap "string list"
  | ErrorOutcome ProviderError

definition has_value :: "FieldMap \<Rightarrow> string \<Rightarrow> bool" where
  "has_value m f = (case m f of None \<Rightarrow> False | Some v \<Rightarrow> v \<noteq> [])"

definition fill_missing :: "FieldMap \<Rightarrow> FieldMap \<Rightarrow> FieldMap" where
  "fill_missing m1 m2 = (\<lambda>f. if has_value m1 f then m1 f else m2 f)"

text \<open>
  Modelled from the spec: the missing extraction flow, as the state machine of section 4.3.
  \<open>collect\<close> gives the fields to collect for the requested beverage type. The result is
  the outcome together with the gateway calls made, in order.
\<close>

definition extraction_state_machine ::
  "Gateway \<Rightarrow> (BeverageType \<Rightarrow> string list) \<Rightarrow> LabelGroup
     \<Rightarrow> ExtractionOutcome \<times> PromptVariant list" where
  "extraction_state_machine gateway collect label =
     (let required = collect (beverage_type label) in
      case gateway Standard (images label) required of
        Inl e \<Rightarrow> (ErrorOutcome e, [Standard])
      | Inr m1 \<Rightarrow>
          (let missing1 = filter (\<lambda>f. \<not> has_value m1 f) required in
           if missing1 = [] then (Complete m1, [Standard])
           else
             (case gateway DegradedImageSpecialized (images label) missing1 of
                Inl e \<Rightarrow> (ErrorOutcome e, [Standard, DegradedImageSpecialized])
              | Inr m2 \<Rightarrow>
                  (let merged = fill_missing m1 m2;
                       missing2 = filter (\<lambda>f. \<not> has_value merged f) required
                   in if missing2 = [] then (Complete merged, [Standard, DegradedImageSpecialized])
                      else (Residual merged missing2, [Standard, DegradedImageSpecialized])))))"

subsection \<open>The validation and escalation resolver\<close>

text \<open>
  Modelled from the spec: one entry of the missing rule tables (section 4.1): the field's
  name, its citation, the condition under which it is required, and the rule that classifies
  a value that is present.
\<close>

record Rule =
  rule_field :: string
  rule_citation :: string
  rule_condition :: "FieldMap \<Rightarrow> bool"
  rule_check :: "string \<Rightarrow> FieldVerdict"

text \<open>
  Modelled from the spec: the part of a label's result that section 4.4 determines: the
  overall status, the classification of every field evaluated, and the escalation reason.
\<close>

record LabelVerdict =
  verdict_status :: OverallStatus
  verdict_fields :: "(string \<times> FieldVerdict) list"
  verdict_reason :: "string option"

text \<open>
  Modelled from the spec: the classification of one field (section 4.4): missing in a
  residual outcome is unreadable, absent when required is a fail, and a present value is
  classified by its rule.
\<close>

definition evaluate_rule :: "FieldMap \<Rightarrow> string list \<Rightarrow> Rule \<Rightarrow> string \<times> FieldVerdict" where
  "evaluate_rule m missing r =
     (rule_field r,
      if rule_field r \<in> set missing then VUnreadable
      else (case m (rule_field r) of
              None \<Rightarrow> VFail
            | Some v \<Rightarrow> if v = [] then VFail else rule_check r v))"

text \<open>
  Modelled from the spec: the derivation of the overall status (section 4.4), the first
  matching rule winning: an error outcome, then any fail, then anything unreadable,
  escalate-classified or an undetermined beverage type, and pass otherwise.
\<close>

definition derive_overall_status :: "bool \<Rightarrow> FieldVerdict list \<Rightarrow> bool \<Rightarrow> OverallStatus" where
  "derive_overall_status is_error verdicts ambiguous =
     (if is_error then ERROR
      else if VFail \<in> set verdicts then FAIL
      else if VUnreadable \<in> set verdicts \<or> VEscalate \<in> set verdicts \<or> ambiguous then ESCALATE
      else PASS)"

text \<open>
  Modelled from the spec: the missing resolver (section 4.4). \<open>infer\<close> is the heuristic
  that reads the beverage type off the extracted fields, \<open>None\<close> when it cannot decide;
  \<open>rules\<close> is the rule table of a resolved type, or of an undetermined one.
\<close>

definition resolve_beverage_type ::
  "(FieldMap \<Rightarrow> BeverageType option) \<Rightarrow> BeverageType \<Rightarrow> FieldMap \<Rightarrow> BeverageType option" where
  "resolve_beverage_type infer requested m = (if requested = Auto then infer m else Some requested)"

definition resolve_fields ::
  "(BeverageType option \<Rightarrow> Rule list) \<Rightarrow> (FieldMap \<Rightarrow> BeverageType option) \<Rightarrow> BeverageType
     \<Rightarrow> FieldMap \<Rightarrow> string list \<Rightarrow> LabelVerdict" where
  "resolve_fields rules infer requested m missing =
     (let resolved = resolve_beverage_type infer requested m;
          evaluated = map (evaluate_rule m missing)
                          (filter (\<lambda>r. rule_condition r m) (rules resolved));
          overall = derive_overall_status False (map snd evaluated) (resolved = None)
      in \<lparr>verdict_status = overall, verdict_fields = evaluated,
          verdict_reason =
            (if overall = ESCALATE
             then Some (if resolved = None then ''beverage type could not be determined''
                        else join_words (map fst (filter (\<lambda>(f, v). v = VUnreadable \<or> v = VEscalate)
                                                        evaluated)))
             else None)\<rparr>)"

definition resolver ::
  "(BeverageType option \<Rightarrow> Rule list) \<Rightarrow> (FieldMap \<Rightarrow> BeverageType option) \<Rightarrow> BeverageType
     \<Rightarrow> ExtractionOutcome \<Rightarrow> LabelVerdict" where
  "resolver rules infer requested outcome =
     (case outcome of
        ErrorOutcome e \<Rightarrow>
          \<lparr>verdict_status = derive_overall_status True [] False, verdict_fields = [],
           verdict_reason = None\<rparr>
      | Complete m \<Rightarrow> resolve_fields rules infer requested m []
      | Residual m missing \<Rightarrow> resolve_fields rules infer requested m missing)"

text \<open>
  Modelled from the spec: the work unit of one group (section 4.5): the state machine, then
  the resolver. It gives the verdict and the gateway calls made.
\<close>

definition work_unit ::
  "Gateway \<Rightarrow> (BeverageType \<Rightarrow> string list) \<Rightarrow> (BeverageType option \<Rightarrow> Rule list)
     \<Rightarrow> (FieldMap \<Rightarrow> BeverageType option) \<Rightarrow> LabelGroup \<Rightarrow> LabelVerdict \<times> PromptVariant list" where
  "work_unit gateway collect rules infer label =
     (case extraction_state_machine gateway collect label of
        (outcome, calls) \<Rightarrow> (resolver rules infer (beverage_type label) outcome, calls))"

section \<open>Notions used in the properties\<close>

text \<open>
  What a block does, whatever the state: the event it stores, if it stores one, and whether
  parsing its payload throws.
\<close>

definition block_event :: "parser \<Rightarrow> string \<Rightarrow> BatchEvent option" where
  "block_event parse block =
     (case data_payload block of
        None \<Rightarrow> None
      | Some payload \<Rightarrow>
          if payload = ''done'' then None
          else (case parse payload of Inl message \<Rightarrow> None | Inr event \<Rightarrow> Some event))"

definition block_throws :: "parser \<Rightarrow> string \<Rightarrow> bool" where
  "block_throws parse block =
     (case data_payload block of
        None \<Rightarrow> False
      | Some payload \<Rightarrow> payload \<noteq> ''done'' \<and> isl (parse payload))"

text \<open>A word of a normalised text: not empty and free of blanks and line breaks.\<close>

definition plain_word :: "string \<Rightarrow> bool" where
  "plain_word w = (w \<noteq> [] \<and> (\<forall>c \<in> set w. \<not> is_space c))"

text \<open>The invariant of the batch and of the selection.\<close>

definition group_ok :: "LabelGroup \<Rightarrow> bool" where
  "group_ok g = (1 \<le> length (images g) \<and> length (images g) \<le> 3)"

definition batch_ok :: "AppState \<Rightarrow> bool" where
  "batch_ok st =
     (length (groups st) \<le> MAX_BATCH \<and> list_all group_ok (groups st)
      \<and> fcard (selectedIds st) \<le> 3)"

section \<open>Sample inputs\<close>

definition sample_result :: "string \<Rightarrow> OverallStatus \<Rightarrow> LabelResult" where
  "sample_result i s =
     \<lparr>res_label_id = i, res_label_name = ''Label '' @ i, overall_status = s,
      res_beverage_type = Beer, res_fields = [], escalation_reason = None,
      images_processed = 1\<rparr>"

definition sample_parse :: parser where
  "sample_parse payload =
     (if payload = ''A''
      then Inr \<lparr>ev_batch_id = ''b1'', ev_completed = 1, ev_total = 2,
                ev_result = sample_result ''g1'' PASS\<rparr>
      else if payload = ''B''
      then Inr \<lparr>ev_batch_id = ''b1'', ev_completed = 2, ev_total = 2,
                ev_result = sample_result ''s0'' FAIL\<rparr>
      else Inl ''Unexpected token'')"

definition sample_url :: "LocalFile \<Rightarrow> string" where
  "sample_url f = ''blob:'' @ file_name f"

definition sample_store :: "LocalFile list \<Rightarrow> UploadResponse" where
  "sample_store form =
     UploadOk (map (\<lambda>f. \<lparr>st_id = ''id-'' @ file_name f, st_filename = file_name f,
                          st_content_type = file_type f,
                          st_storage_key = ''key-'' @ file_name f, st_size_bytes = 0\<rparr>) form)"

definition sample_files :: "LocalFile list" where
  "sample_files =
     [\<lparr>file_name = ''front_label.png'', file_type = ''image/png''\<rparr>,
      \<lparr>file_name = ''back.jpg'', file_type = ''image/jpeg''\<rparr>]"

definition mixed_files :: "LocalFile list" where
  "mixed_files =
     [\<lparr>file_name = ''front_label.png'', file_type = ''image/png''\<rparr>,
      \<lparr>file_name = ''notes.pdf'', file_type = ''application/pdf''\<rparr>,
      \<lparr>file_name = ''clip.gif'', file_type = ''image/gif''\<rparr>]"

definition sample_uuids :: "nat \<Rightarrow> string" where
  "sample_uuids k = ''s'' @ string_of_nat k"

definition selecting_actions :: "Action list" where
  "selecting_actions =
     [SetFiles (Some sample_files), UploadFiles sample_store,
      ToggleSelection ''id-front_label.png'']"

definition grouping_actions :: "Action list" where
  "grouping_actions = selecting_actions @ [CreateGroup ''g1'']"

definition sample_actions :: "Action list" where
  "sample_actions = grouping_actions @ [CreateSinglesFromPool sample_uuids]"

definition sample_group :: LabelGroup where
  "sample_group =
     \<lparr>label_id = ''g1'', label_name = ''front label'', beverage_type = Auto,
      images = [\<lparr>gi_id = ''id-front_label.png'', gi_filename = ''front_label.png'',
                 gi_storage_key = ''key-front_label.png'',
                 gi_preview_url = ''blob:front_label.png''\<rparr>]\<rparr>"

definition sample_single :: LabelGroup where
  "sample_single =
     \<lparr>label_id = ''s0'', label_name = ''back'', beverage_type = Auto,
      images = [\<lparr>gi_id = ''id-back.jpg'', gi_filename = ''back.jpg'',
                 gi_storage_key = ''key-back.jpg'', gi_preview_url = ''blob:back.jpg''\<rparr>]\<rparr>"

definition two_groups_state :: AppState where
  "two_groups_state = initial_state\<lparr>groups := [sample_group, sample_single]\<rparr>"

text \<open>
  A hundred and one files are uploaded, "Create Singles for All" is pressed, and the one image
  that is left over is selected.
\<close>

definition many_files :: "LocalFile list" where
  "many_files =
     map (\<lambda>k. \<lparr>file_name = ''f'' @ string_of_nat k @ ''.png'', file_type = ''image/png''\<rparr>)
         [0 ..< 101]"

definition uploading_actions :: "Action list" where
  "uploading_actions = [SetFiles (Some many_files), UploadFiles sample_store]"

definition filling_actions :: "Action list" where
  "filling_actions =
     uploading_actions @ [CreateSinglesFromPool sample_uuids, ToggleSelection ''id-f100.png'']"

definition marker_then_event :: "RequestLabel list \<Rightarrow> VerifyResponse" where
  "marker_then_event request =
     VerifyStream [''data: done\<newline>\<newline>'', ''data: A\<newline>\<newline>''] EndOfStream"

definition marker_only :: "RequestLabel list \<Rightarrow> VerifyResponse" where
  "marker_only request = VerifyStream [''data: done\<newline>\<newline>''] EndOfStream"

definition event_only :: "RequestLabel list \<Rightarrow> VerifyResponse" where
  "event_only request = VerifyStream [''data: A\<newline>\<newline>''] EndOfStream"

definition event_then_reset :: "RequestLabel list \<Rightarrow> VerifyResponse" where
  "event_then_reset request =
     VerifyStream [''data: A\<newline>\<newline>''] (ReadFails ''network error'')"

definition event_then_garbage :: "RequestLabel list \<Rightarrow> VerifyResponse" where
  "event_then_garbage request =
     VerifyStream [''data: A\<newline>\<newline>data: X\<newline>\<newline>'', ''data: B\<newline>\<newline>''] EndOfStream"

text \<open>Warning texts: the statement broken into lines as it is printed, and four deviations.\<close>

definition warning_line_broken :: string where
  "warning_line_broken =
     ''GOVERNMENT WARNING: (1) According to the Surgeon General, women should not drink\<newline>'' @
     ''alcoholic beverages during pregnancy because of the risk of birth defects.\<newline>'' @
     ''(2) Consumption of alcoholic beverages impairs your ability to drive a car or\<newline>'' @
     ''operate machinery, and may cause health problems.\<newline>''"

definition warning_lowercase_heading :: string where
  "warning_lowercase_heading =
     ''Government Warning: (1) According to the Surgeon General, women should not drink '' @
     ''alcoholic beverages during pregnancy because of the risk of birth defects. '' @
     ''(2) Consumption of alcoholic beverages impairs your ability to drive a car or '' @
     ''operate machinery, and may cause health problems.''"

definition warning_without_comma :: string where
  "warning_without_comma =
     ''GOVERNMENT WARNING: (1) According to the Surgeon General women should not drink '' @
     ''alcoholic beverages during pregnancy because of the risk of birth defects. '' @
     ''(2) Consumption of alcoholic beverages impairs your ability to drive a car or '' @
     ''operate machinery, and may cause health problems.''"

definition warning_truncated :: string where
  "warning_truncated =
     ''GOVERNMENT WARNING: (1) According to the Surgeon General, women should not drink '' @
     ''alcoholic beverages during pregnancy because of the risk of birth defects.''"

definition warning_reordered :: string where
  "warning_reordered =
     ''GOVERNMENT WARNING: '' @
     ''(2) Consumption of alcoholic beverages impairs your ability to drive a car or '' @
     ''operate machinery, and may cause health problems. '' @
     ''(1) According to the Surgeon General, women should not drink '' @
     ''alcoholic beverages during pregnancy because of the risk of birth defects.''"

text \<open>
  Gateways: one that fails at once, one that reads nothing at the first pass and fails at
  the second, and one that reads the brand name only at the second pass.
\<close>

definition failing_gateway :: Gateway where
  "failing_gateway variant imgs wanted = Inl Timeout"


definition slow_gateway :: Gateway where
  "slow_gateway variant imgs wanted =
     (case variant of
        Standard \<Rightarrow> Inr [''government_warning'' \<mapsto> CANONICAL_WARNING]
      | DegradedImageSpecialized \<Rightarrow> Inr [''brand_name'' \<mapsto> ''Old Tom''])"

definition sample_collect :: "BeverageType \<Rightarrow> string list" where
  "sample_collect b = [''brand_name'', ''government_warning'']"

definition sample_rules :: "BeverageType option \<Rightarrow> Rule list" where
  "sample_rules b =
     [\<lparr>rule_field = ''brand_name'', rule_citation = ''27 CFR 5.32'',
       rule_condition = (\<lambda>m. True), rule_check = (\<lambda>v. VPass)\<rparr>,
      \<lparr>rule_field = ''government_warning'', rule_citation = ''27 CFR Part 16'',
       rule_condition = (\<lambda>m. True), rule_check = government_warning_matcher\<rparr>]"

definition sample_infer :: "FieldMap \<Rightarrow> BeverageType option" where
  "sample_infer m = Some Spirits"

section \<open>Properties\<close>

lemma toggleSelection_update_card:
  "fcard (toggleSelection_update i s) \<le> max 3 (fcard s)"
  by (auto simp: toggleSelection_update_def fcard_finsert_if
      intro: order_trans [OF fcard_mono [of "s |-| {|i|}" s]])

text \<open>
  C9. Toggling the same image id twice gives back the selection one started from, for every
  selection of at most three ids; and one toggle of such a selection never holds more than
  three ids.
\<close>

theorem toggleSelection_involution:
  "fcard s \<le> 3 \<Longrightarrow>
     toggleSelection_update i (toggleSelection_update i s) = s
     \<and> fcard (toggleSelection_update i s) \<le> 3"
  by (auto simp: toggleSelection_update_def fcard_finsert_if split: if_splits)

theorem toggleSelection_involution_witness:
  "fcard {|''a'', ''b'', ''c''|} \<le> 3
   \<and> toggleSelection_update ''d'' (toggleSelection_update ''d'' {|''a'', ''b'', ''c''|})
       = {|''a'', ''b'', ''c''|}
   \<and> toggleSelection_update ''a'' (toggleSelection_update ''a'' {|''a'', ''b'', ''c''|})
       = {|''a'', ''b'', ''c''|}
   \<and> fcard (toggleSelection_update ''d'' {|''a'', ''b'', ''c''|}) \<le> 3"
proof -
  have h: "fcard {|''a'', ''b'', ''c''|} \<le> 3"
    by (simp add: fcard_finsert_if)
  show ?thesis
    using h toggleSelection_involution [OF h, of "''d''"]
      toggleSelection_involution [OF h, of "''a''"]
    by simp
qed

subsection \<open>What the stream and the uploads leave alone\<close>

lemma labelNameEffect_groups [simp]: "groups (labelNameEffect st) = groups st"
  by (simp add: labelNameEffect_def)

lemma labelNameEffect_selectedIds [simp]: "selectedIds (labelNameEffect st) = selectedIds st"
  by (simp add: labelNameEffect_def)

lemma groups_uploadFiles [simp]: "groups (fst (uploadFiles server url st)) = groups st"
  by (simp add: uploadFiles_def Let_def split: option.splits sum.splits UploadResponse.splits)

lemma selectedIds_uploadFiles [simp]: "selectedIds (fst (uploadFiles server url st)) = selectedIds st"
  by (simp add: uploadFiles_def Let_def split: option.splits sum.splits UploadResponse.splits)

lemma handle_block_frame:
  "handle_block parse b st = Inr st' \<Longrightarrow> groups st' = groups st \<and> selectedIds st' = selectedIds st"
  by (auto simp: handle_block_def Let_def split: option.splits sum.splits if_splits)

lemma handle_blocks_frame:
  "groups (fst (handle_blocks parse bs st)) = groups st
   \<and> selectedIds (fst (handle_blocks parse bs st)) = selectedIds st"
  by (induction bs arbitrary: st) (auto split: sum.splits dest: handle_block_frame)

lemma read_loop_frame:
  "groups (fst (read_loop parse cs buf st)) = groups st
   \<and> selectedIds (fst (read_loop parse cs buf st)) = selectedIds st"
proof (induction cs arbitrary: buf st)
  case Nil
  then show ?case by simp
next
  case (Cons c cs)
  obtain s m where h: "handle_blocks parse (butlast (split (buf @ c) ''\<newline>\<newline>'')) st = (s, m)"
    by (cases "handle_blocks parse (butlast (split (buf @ c) ''\<newline>\<newline>'')) st")
  have f: "groups s = groups st \<and> selectedIds s = selectedIds st"
    using handle_blocks_frame [of parse "butlast (split (buf @ c) ''\<newline>\<newline>'')" st] h by simp
  show ?case
    using h f Cons.IH [of "last (split (buf @ c) ''\<newline>\<newline>'')" s]
    by (cases m) (simp_all add: Let_def)
qed

lemma startVerification_frame:
  "groups (startVerification parse server st) = groups st
   \<and> selectedIds (startVerification parse server st) = selectedIds st"
proof (cases "groups st = []")
  case True
  then show ?thesis by (simp add: startVerification_def Let_def)
next
  case False
  show ?thesis
  proof (cases "server (requestLabels (groups st))")
    case (VerifyThrows m)
    with False show ?thesis by (simp add: startVerification_def Let_def)
  next
    case (VerifyNotOk d)
    with False show ?thesis by (simp add: startVerification_def Let_def)
  next
    case (VerifyStream chunks ending)
    let ?st2 = "st\<lparr>error := [], results := [], batchId := [], completed := 0,
                   total_count := length (groups st), busy := True\<rparr>"
    obtain s m where h: "read_loop parse chunks [] ?st2 = (s, m)"
      by (cases "read_loop parse chunks [] ?st2")
    have f: "groups s = groups st \<and> selectedIds s = selectedIds st"
      using read_loop_frame [of parse chunks "[]" ?st2] h by simp
    show ?thesis
      using False VerifyStream h f
      by (cases m; cases ending) (simp_all add: startVerification_def Let_def)
  qed
qed

subsection \<open>The batch invariant\<close>

lemma fcard_fempty_le [simp]: "fcard {||} \<le> n"
  by (simp add: fcard_fempty)

lemma createGroup_groups:
  "groups (createGroup uuid st) =
     (if length (selectedImages st) < 1 \<or> 3 < length (selectedImages st)
         \<or> MAX_BATCH \<le> length (groups st)
      then groups st
      else groups st @ [\<lparr>label_id = uuid,
              label_name = (if trim (labelName st) \<noteq> [] then trim (labelName st)
                            else suggestedLabelName (map up_filename (selectedImages st))),
              beverage_type = beverageType st,
              images = map toGroupImage (selectedImages st)\<rparr>])"
  by (simp add: createGroup_def Let_def)

lemma createGroup_selectedIds:
  "selectedIds (createGroup uuid st) = selectedIds st \<or> selectedIds (createGroup uuid st) = {||}"
  by (simp add: createGroup_def Let_def)

lemma createSinglesFromPool_groups:
  "groups (createSinglesFromPool uuids st) =
     (if poolImages st = [] \<or> MAX_BATCH \<le> length (groups st) then groups st
      else groups st @
        map (\<lambda>(img, k). \<lparr>label_id = uuids k, label_name = baseLabelName (up_filename img),
                           beverage_type = beverageType st, images = [toGroupImage img]\<rparr>)
            (zip (take (MAX_BATCH - length (groups st)) (poolImages st))
                 [0 ..< length (take (MAX_BATCH - length (groups st)) (poolImages st))]))"
  by (simp add: createSinglesFromPool_def Let_def)

lemma createSinglesFromPool_selectedIds:
  "selectedIds (createSinglesFromPool uuids st) = selectedIds st
   \<or> selectedIds (createSinglesFromPool uuids st) = {||}"
  by (simp add: createSinglesFromPool_def Let_def)

lemma createSinglesFromPool_length:
  "length (groups (createSinglesFromPool uuids st)) =
     (if poolImages st = [] \<or> MAX_BATCH \<le> length (groups st) then length (groups st)
      else length (groups st) + min (length (poolImages st)) (MAX_BATCH - length (groups st)))"
  by (simp add: createSinglesFromPool_groups min_def)

lemma batch_ok_createGroup: "batch_ok st \<Longrightarrow> batch_ok (createGroup uuid st)"
  using createGroup_selectedIds [of uuid st]
  by (auto simp: batch_ok_def createGroup_groups group_ok_def Suc_le_eq)

lemma batch_ok_createSinglesFromPool: "batch_ok st \<Longrightarrow> batch_ok (createSinglesFromPool uuids st)"
  using createSinglesFromPool_selectedIds [of uuids st]
  by (auto simp: batch_ok_def createSinglesFromPool_groups group_ok_def list_all_iff
      dest!: set_zip_leftD)

lemma batch_ok_step: "batch_ok st \<Longrightarrow> batch_ok (step parse url st a)"
proof (cases a)
  case (CreateGroup uuid)
  assume "batch_ok st"
  then have "batch_ok (createGroup uuid st)" by (rule batch_ok_createGroup)
  then show ?thesis using CreateGroup by (simp add: step_def batch_ok_def)
next
  case (CreateSinglesFromPool uuids)
  assume "batch_ok st"
  then have "batch_ok (createSinglesFromPool uuids st)" by (rule batch_ok_createSinglesFromPool)
  then show ?thesis using CreateSinglesFromPool by (simp add: step_def batch_ok_def)
next
  case (ToggleSelection i)
  assume "batch_ok st"
  then show ?thesis
    using ToggleSelection toggleSelection_update_card [of i "selectedIds st"]
    by (simp add: step_def batch_ok_def toggleSelection_def)
next
  case (StartVerification server)
  assume "batch_ok st"
  then show ?thesis
    using StartVerification startVerification_frame [of parse server st]
    by (simp add: step_def batch_ok_def)
next
  case (RemoveGroup i)
  assume "batch_ok st"
  then show ?thesis
    using RemoveGroup
      le_trans [OF length_filter_le [of "\<lambda>g. label_id g \<noteq> i" "groups st"], of MAX_BATCH]
    by (auto simp: step_def batch_ok_def removeGroup_def list_all_iff)
next
  case (RemoveUngroupedImage i)
  assume "batch_ok st"
  then show ?thesis
    using RemoveUngroupedImage
      le_trans [OF fcard_fminus1_le [of "selectedIds st" i], of 3]
    by (auto simp: step_def batch_ok_def removeUngroupedImage_def)
qed (simp_all add: step_def batch_ok_def removeResult_def)

lemma batch_ok_foldl: "batch_ok st \<Longrightarrow> batch_ok (foldl (step parse url) st actions)"
  by (induction actions arbitrary: st) (simp_all add: batch_ok_step)

lemma batch_ok_initial: "batch_ok initial_state"
  by (simp add: batch_ok_def initial_state_def MAX_BATCH_def)

lemma batch_ok_run: "batch_ok (run parse url actions)"
  unfolding run_def by (rule batch_ok_foldl [OF batch_ok_initial])

lemma createGroup_full:
  "MAX_BATCH \<le> length (groups st) \<Longrightarrow>
     createGroup uuid st =
       st\<lparr>error := (if length (selectedImages st) < 1 \<or> 3 < length (selectedImages st)
                     then ''Select 1 to 3 images to create a label group.''
                     else ''Batch already has 100 labels.'')\<rparr>"
  by (simp add: createGroup_def Let_def)

lemma createSinglesFromPool_prefix:
  "take (length (groups st)) (groups (createSinglesFromPool uuids st)) = groups st"
  by (simp add: createSinglesFromPool_groups)

lemma createSinglesFromPool_singles:
  "list_all (\<lambda>g. length (images g) = 1)
     (drop (length (groups st)) (groups (createSinglesFromPool uuids st)))"
  by (auto simp: createSinglesFromPool_groups list_all_iff dest!: set_zip_leftD)

lemma createGroup_rejects:
  "length (selectedImages st) = 0 \<or> 3 < length (selectedImages st) \<Longrightarrow>
     createGroup uuid st = st\<lparr>error := ''Select 1 to 3 images to create a label group.''\<rparr>"
  by (auto simp: createGroup_def Let_def)

lemma filling_run:
  "length (groups (run sample_parse sample_url filling_actions)) = 100"
  "length (selectedImages (run sample_parse sample_url filling_actions)) = 1"
  "length (poolImages (run sample_parse sample_url uploading_actions)) = 101"
  "length (groups (run sample_parse sample_url uploading_actions)) = 0"
  by code_simp+

lemma selecting_run:
  "length (selectedImages (run sample_parse sample_url selecting_actions)) = 1"
  "groups (run sample_parse sample_url selecting_actions) = []"
  by code_simp+

lemma grouping_run:
  "groups (run sample_parse sample_url grouping_actions) = [sample_group]"
  "groups (createGroup ''g1'' (run sample_parse sample_url selecting_actions)) = [sample_group]"
  "groups (createSinglesFromPool sample_uuids (run sample_parse sample_url grouping_actions))
     = [sample_group, sample_single]"
  by code_simp+

lemma sample_run_groups:
  "groups (run sample_parse sample_url sample_actions) = [sample_group, sample_single]"
  by code_simp

text \<open>
  C5. The batch never holds more than 100 label groups, whatever the user does, starting from
  the empty batch. When it holds 100, \<open>createGroup\<close> leaves the groups as they are and
  reports an error: that the batch already has 100 labels, or, when the selection is not of
  one to three images, that one to three images must be selected. \<open>createSinglesFromPool\<close>
  keeps the groups there are and adds as many single-image groups as there are ungrouped
  images, but no more than the remaining capacity.
\<close>

theorem batch_never_exceeds_100:
  "length (groups (run parse url actions)) \<le> 100
   \<and> (100 \<le> length (groups st) \<longrightarrow>
        groups (createGroup uuid st) = groups st
        \<and> error (createGroup uuid st) =
            (if length (selectedImages st) < 1 \<or> 3 < length (selectedImages st)
             then ''Select 1 to 3 images to create a label group.''
             else ''Batch already has 100 labels.''))
   \<and> length (groups (createSinglesFromPool uuids st)) =
       (if poolImages st = [] \<or> 100 \<le> length (groups st) then length (groups st)
        else length (groups st) + min (length (poolImages st)) (100 - length (groups st)))
   \<and> take (length (groups st)) (groups (createSinglesFromPool uuids st)) = groups st"
proof -
  have "length (groups (run parse url actions)) \<le> 100"
    using batch_ok_run [of parse url actions] by (simp add: batch_ok_def MAX_BATCH_def)
  moreover have "100 \<le> length (groups st) \<longrightarrow>
        groups (createGroup uuid st) = groups st
        \<and> error (createGroup uuid st) =
            (if length (selectedImages st) < 1 \<or> 3 < length (selectedImages st)
             then ''Select 1 to 3 images to create a label group.''
             else ''Batch already has 100 labels.'')"
    using createGroup_full [of st uuid] by (simp add: MAX_BATCH_def)
  moreover have "length (groups (createSinglesFromPool uuids st)) =
       (if poolImages st = [] \<or> 100 \<le> length (groups st) then length (groups st)
        else length (groups st) + min (length (poolImages st)) (100 - length (groups st)))"
    using createSinglesFromPool_length [of uuids st] by (simp add: MAX_BATCH_def)
  ultimately show ?thesis
    using createSinglesFromPool_prefix [of st uuids] by simp
qed

theorem batch_never_exceeds_100_witness:
  "100 \<le> length (groups (run sample_parse sample_url filling_actions))
   \<and> groups (createGroup ''g101'' (run sample_parse sample_url filling_actions))
       = groups (run sample_parse sample_url filling_actions)
   \<and> error (createGroup ''g101'' (run sample_parse sample_url filling_actions))
       = ''Batch already has 100 labels.''
   \<and> length (poolImages (run sample_parse sample_url uploading_actions)) = 101
   \<and> length (groups (createSinglesFromPool sample_uuids
                        (run sample_parse sample_url uploading_actions))) = 100
   \<and> length (groups (run sample_parse sample_url filling_actions)) \<le> 100"
proof -
  have p: "poolImages (run sample_parse sample_url uploading_actions) \<noteq> []"
    using filling_run(3) by auto
  show ?thesis
    using filling_run p
      batch_never_exceeds_100
        [of sample_parse sample_url filling_actions
            "run sample_parse sample_url filling_actions" "''g101''" sample_uuids]
      batch_never_exceeds_100
        [of sample_parse sample_url filling_actions
            "run sample_parse sample_url uploading_actions" "''g101''" sample_uuids]
    by simp
qed

text \<open>
  C6. Every group of the batch holds one to three images, whatever the user does, and the
  selection never holds more than three ids. \<open>createGroup\<close> turns down a selection of no
  image or of more than three without touching the groups, and a group it adds has one to
  three images; \<open>toggleSelection\<close> never takes the selection beyond three ids;
  \<open>createSinglesFromPool\<close> adds only groups of one image.
\<close>

theorem groups_hold_one_to_three_images:
  "(\<forall>g \<in> set (groups (run parse url actions)). 1 \<le> length (images g) \<and> length (images g) \<le> 3)
   \<and> fcard (selectedIds (run parse url actions)) \<le> 3
   \<and> (length (selectedImages st) = 0 \<or> 3 < length (selectedImages st) \<longrightarrow>
        groups (createGroup uuid st) = groups st
        \<and> error (createGroup uuid st) = ''Select 1 to 3 images to create a label group.'')
   \<and> (\<forall>g \<in> set (groups (createGroup uuid st)).
        g \<in> set (groups st) \<or> (1 \<le> length (images g) \<and> length (images g) \<le> 3))
   \<and> fcard (toggleSelection_update i s) \<le> max 3 (fcard s)
   \<and> take (length (groups st)) (groups (createSinglesFromPool uuids st)) = groups st
   \<and> (\<forall>g \<in> set (drop (length (groups st)) (groups (createSinglesFromPool uuids st))).
        length (images g) = 1)"
proof -
  have inv: "batch_ok (run parse url actions)"
    by (rule batch_ok_run)
  have a: "\<forall>g \<in> set (groups (run parse url actions)). 1 \<le> length (images g) \<and> length (images g) \<le> 3"
    using inv by (simp add: batch_ok_def list_all_iff group_ok_def)
  have b: "fcard (selectedIds (run parse url actions)) \<le> 3"
    using inv by (simp add: batch_ok_def)
  have c: "length (selectedImages st) = 0 \<or> 3 < length (selectedImages st) \<longrightarrow>
        groups (createGroup uuid st) = groups st
        \<and> error (createGroup uuid st) = ''Select 1 to 3 images to create a label group.''"
    using createGroup_rejects [of st uuid] by auto
  have d: "\<forall>g \<in> set (groups (createGroup uuid st)).
        g \<in> set (groups st) \<or> (1 \<le> length (images g) \<and> length (images g) \<le> 3)"
    by (auto simp: createGroup_groups Suc_le_eq)
  have e: "\<forall>g \<in> set (drop (length (groups st)) (groups (createSinglesFromPool uuids st))).
        length (images g) = 1"
    using createSinglesFromPool_singles [of st uuids] by (simp add: list_all_iff)
  show ?thesis
    using a b c d e toggleSelection_update_card [of i s] createSinglesFromPool_prefix [of st uuids]
    by blast
qed

theorem groups_hold_one_to_three_images_witness:
  "sample_group \<in> set (groups (run sample_parse sample_url sample_actions))
   \<and> 1 \<le> length (images sample_group) \<and> length (images sample_group) \<le> 3
   \<and> length (selectedImages initial_state) = 0
   \<and> groups (createGroup ''g1'' initial_state) = groups initial_state
   \<and> error (createGroup ''g1'' initial_state) = ''Select 1 to 3 images to create a label group.''
   \<and> sample_group \<in> set (groups (createGroup ''g1'' (run sample_parse sample_url selecting_actions)))
   \<and> sample_group \<notin> set (groups (run sample_parse sample_url selecting_actions))
   \<and> sample_single \<in> set (drop (length (groups (run sample_parse sample_url grouping_actions)))
         (groups (createSinglesFromPool sample_uuids (run sample_parse sample_url grouping_actions))))
   \<and> length (images sample_single) = 1
   \<and> fcard (toggleSelection_update ''d'' {|''a'', ''b'', ''c''|}) \<le> 3"
proof -
  have m: "sample_group \<in> set (groups (run sample_parse sample_url sample_actions))"
    by (simp add: sample_run_groups)
  have z: "length (selectedImages initial_state) = 0"
    by (simp add: selectedImages_def initial_state_def)
  have k: "max 3 (fcard {|''a'', ''b'', ''c''|}) = 3"
    by (simp add: fcard_finsert_if fcard_fempty)
  have n: "sample_group \<in> set (groups (createGroup ''g1'' (run sample_parse sample_url selecting_actions)))"
    "sample_group \<notin> set (groups (run sample_parse sample_url selecting_actions))"
    by (simp_all add: grouping_run selecting_run)
  have d: "sample_single \<in> set (drop (length (groups (run sample_parse sample_url grouping_actions)))
         (groups (createSinglesFromPool sample_uuids (run sample_parse sample_url grouping_actions))))"
    by (simp add: grouping_run)
  show ?thesis
    using m z k n d
      groups_hold_one_to_three_images
        [of sample_parse sample_url sample_actions initial_state "''g1''" "''d''"
            "{|''a'', ''b'', ''c''|}" sample_uuids]
      groups_hold_one_to_three_images
        [of sample_parse sample_url sample_actions
            "run sample_parse sample_url selecting_actions" "''g1''" "''d''"
            "{|''a'', ''b'', ''c''|}" sample_uuids]
      groups_hold_one_to_three_images
        [of sample_parse sample_url sample_actions
            "run sample_parse sample_url grouping_actions" "''g1''" "''d''"
            "{|''a'', ''b'', ''c''|}" sample_uuids]
    by auto
qed

subsection \<open>Uploading\<close>

lemma fill_form_find:
  "fill_form form fs =
     (case find (\<lambda>f. file_type f \<notin> set allowed_types) fs of
        Some f \<Rightarrow> Inl (file_name f)
      | None \<Rightarrow> Inr (form @ fs))"
  by (induction fs arbitrary: form) (simp_all split: option.splits)

lemma uploadFiles_no_files:
  "files st = None \<or> files st = Some [] \<Longrightarrow>
     uploadFiles server url st = (st\<lparr>error := ''Choose at least one JPEG or PNG image.''\<rparr>, None)"
  by (auto simp: uploadFiles_def)

lemma uploadFiles_bad_type:
  "files st = Some fs \<Longrightarrow> fs \<noteq> [] \<Longrightarrow>
   find (\<lambda>f. file_type f \<notin> set allowed_types) fs = Some f \<Longrightarrow>
     uploadFiles server url st =
       (st\<lparr>error := ''Unsupported file type: '' @ file_name f @ ''. Only JPEG/PNG allowed.''\<rparr>, None)"
  by (simp add: uploadFiles_def fill_form_find)

lemma uploadFiles_request:
  "files st = Some fs \<Longrightarrow> fs \<noteq> [] \<Longrightarrow>
   find (\<lambda>f. file_type f \<notin> set allowed_types) fs = None \<Longrightarrow>
     snd (uploadFiles server url st) = Some fs"
  by (simp add: uploadFiles_def fill_form_find Let_def split: UploadResponse.splits)

text \<open>
  C10. \<open>uploadFiles\<close> admits only JPEG and PNG. With no file chosen it sets the error that
  asks for at least one image; with a file of another content type it sets the error that
  names the first such file; in both cases it sends no request and leaves everything but
  the error, the uploaded images among it, as it was. The request is sent exactly when files
  are chosen and every one of them is JPEG or PNG, and it carries all of them.
\<close>

theorem uploadFiles_admits_only_jpeg_png:
  "(files st = None \<or> files st = Some [] \<longrightarrow>
      uploadFiles server url st =
        (st\<lparr>error := ''Choose at least one JPEG or PNG image.''\<rparr>, None))
   \<and> (files st = Some fs \<and> fs \<noteq> []
        \<and> find (\<lambda>f. file_type f \<noteq> ''image/jpeg'' \<and> file_type f \<noteq> ''image/png'') fs = Some f \<longrightarrow>
      uploadFiles server url st =
        (st\<lparr>error := ''Unsupported file type: '' @ file_name f @ ''. Only JPEG/PNG allowed.''\<rparr>,
         None))
   \<and> (snd (uploadFiles server url st) \<noteq> None \<longleftrightarrow>
        (\<exists>fs. files st = Some fs \<and> fs \<noteq> []
           \<and> (\<forall>f \<in> set fs. file_type f = ''image/jpeg'' \<or> file_type f = ''image/png'')))
   \<and> (\<forall>fs. files st = Some fs \<and> fs \<noteq> []
           \<and> (\<forall>f \<in> set fs. file_type f = ''image/jpeg'' \<or> file_type f = ''image/png'') \<longrightarrow>
         snd (uploadFiles server url st) = Some fs)
   \<and> (snd (uploadFiles server url st) = None \<longrightarrow>
        uploaded (fst (uploadFiles server url st)) = uploaded st
        \<and> error (fst (uploadFiles server url st)) \<noteq> [])"
proof -
  let ?bad = "\<lambda>f. file_type f \<noteq> ''image/jpeg'' \<and> file_type f \<noteq> ''image/png''"
  have bad: "(\<lambda>f. file_type f \<notin> set allowed_types) = ?bad"
    by (auto simp: allowed_types_def)
  have a: "files st = None \<or> files st = Some [] \<longrightarrow>
      uploadFiles server url st =
        (st\<lparr>error := ''Choose at least one JPEG or PNG image.''\<rparr>, None)"
    using uploadFiles_no_files [of st server url] by blast
  have b: "files st = Some fs \<and> fs \<noteq> [] \<and> find ?bad fs = Some f \<longrightarrow>
      uploadFiles server url st =
        (st\<lparr>error := ''Unsupported file type: '' @ file_name f @ ''. Only JPEG/PNG allowed.''\<rparr>,
         None)"
    using uploadFiles_bad_type [of st fs f server url] by (simp add: bad)
  have d: "\<forall>fs. files st = Some fs \<and> fs \<noteq> []
           \<and> (\<forall>f \<in> set fs. file_type f = ''image/jpeg'' \<or> file_type f = ''image/png'') \<longrightarrow>
         snd (uploadFiles server url st) = Some fs"
  proof (intro allI impI)
    fix gs
    assume h: "files st = Some gs \<and> gs \<noteq> []
           \<and> (\<forall>f \<in> set gs. file_type f = ''image/jpeg'' \<or> file_type f = ''image/png'')"
    then have "find ?bad gs = None"
      by (auto simp: find_None_iff)
    then show "snd (uploadFiles server url st) = Some gs"
      using h uploadFiles_request [of st gs server url] by (simp add: bad)
  qed
  have e: "snd (uploadFiles server url st) = None \<longrightarrow>
        uploaded (fst (uploadFiles server url st)) = uploaded st
        \<and> error (fst (uploadFiles server url st)) \<noteq> []"
    by (auto simp: uploadFiles_def Let_def split: option.splits sum.splits UploadResponse.splits if_splits)
  have c: "snd (uploadFiles server url st) \<noteq> None \<longleftrightarrow>
        (\<exists>fs. files st = Some fs \<and> fs \<noteq> []
           \<and> (\<forall>f \<in> set fs. file_type f = ''image/jpeg'' \<or> file_type f = ''image/png''))"
  proof
    assume n: "snd (uploadFiles server url st) \<noteq> None"
    show "\<exists>fs. files st = Some fs \<and> fs \<noteq> []
           \<and> (\<forall>f \<in> set fs. file_type f = ''image/jpeg'' \<or> file_type f = ''image/png'')"
    proof (cases "files st")
      case None
      then show ?thesis using n a by simp
    next
      case (Some gs)
      show ?thesis
      proof (cases "gs = []")
        case True
        then show ?thesis using n a Some by simp
      next
        case False
        show ?thesis
        proof (cases "find ?bad gs")
          case None
          then show ?thesis using Some False by (auto simp: find_None_iff)
        next
          case (Some g)
          then show ?thesis
            using n \<open>files st = Some gs\<close> False uploadFiles_bad_type [of st gs g server url]
            by (simp add: bad)
        qed
      qed
    qed
  next
    assume "\<exists>fs. files st = Some fs \<and> fs \<noteq> []
           \<and> (\<forall>f \<in> set fs. file_type f = ''image/jpeg'' \<or> file_type f = ''image/png'')"
    then show "snd (uploadFiles server url st) \<noteq> None"
      using d by auto
  qed
  show ?thesis
    using a b c d e by blast
qed

theorem uploadFiles_admits_only_jpeg_png_witness:
  "files initial_state = None
   \<and> uploadFiles sample_store sample_url initial_state =
       (initial_state\<lparr>error := ''Choose at least one JPEG or PNG image.''\<rparr>, None)
   \<and> files (initial_state\<lparr>files := Some mixed_files\<rparr>) = Some mixed_files \<and> mixed_files \<noteq> []
   \<and> find (\<lambda>f. file_type f \<noteq> ''image/jpeg'' \<and> file_type f \<noteq> ''image/png'') mixed_files
       = Some \<lparr>file_name = ''notes.pdf'', file_type = ''application/pdf''\<rparr>
   \<and> uploadFiles sample_store sample_url (initial_state\<lparr>files := Some mixed_files\<rparr>) =
       (initial_state\<lparr>files := Some mixed_files,
                      error := ''Unsupported file type: notes.pdf. Only JPEG/PNG allowed.''\<rparr>, None)
   \<and> list_all (\<lambda>f. file_type f = ''image/jpeg'' \<or> file_type f = ''image/png'') sample_files
   \<and> snd (uploadFiles sample_store sample_url (initial_state\<lparr>files := Some sample_files\<rparr>))
       = Some sample_files"
proof -
  have a: "files initial_state = None"
    by (simp add: initial_state_def)
  have b: "files (initial_state\<lparr>files := Some mixed_files\<rparr>) = Some mixed_files \<and> mixed_files \<noteq> []"
    by (simp add: mixed_files_def)
  have c: "find (\<lambda>f. file_type f \<noteq> ''image/jpeg'' \<and> file_type f \<noteq> ''image/png'') mixed_files
       = Some \<lparr>file_name = ''notes.pdf'', file_type = ''application/pdf''\<rparr>"
    by (simp add: mixed_files_def)
  have d: "files (initial_state\<lparr>files := Some sample_files\<rparr>) = Some sample_files \<and> sample_files \<noteq> []
           \<and> (\<forall>f \<in> set sample_files. file_type f = ''image/jpeg'' \<or> file_type f = ''image/png'')"
    by (simp add: sample_files_def)
  have d': "list_all (\<lambda>f. file_type f = ''image/jpeg'' \<or> file_type f = ''image/png'') sample_files"
    by (simp add: sample_files_def)
  show ?thesis
    using a b c d d'
      uploadFiles_admits_only_jpeg_png [of initial_state sample_store sample_url]
      uploadFiles_admits_only_jpeg_png
        [of "initial_state\<lparr>files := Some mixed_files\<rparr>" sample_store sample_url mixed_files
            "\<lparr>file_name = ''notes.pdf'', file_type = ''application/pdf''\<rparr>"]
      uploadFiles_admits_only_jpeg_png
        [of "initial_state\<lparr>files := Some sample_files\<rparr>" sample_store sample_url]
    by simp
qed

subsection \<open>Results and their groups\<close>

lemma foldl_index_Some:
  "foldl (\<lambda>index g. index(label_id g \<mapsto> g)) m gs i = Some g \<Longrightarrow>
     (g \<in> set gs \<and> label_id g = i) \<or> m i = Some g"
  by (induction gs arbitrary: m) (fastforce split: if_splits)+

lemma foldl_index_None:
  "foldl (\<lambda>index g. index(label_id g \<mapsto> g)) m gs i = None \<longleftrightarrow>
     m i = None \<and> (\<forall>g \<in> set gs. label_id g \<noteq> i)"
  by (induction gs arbitrary: m) auto

lemma groupByLabelId_Some:
  "groupByLabelId gs i = Some g \<Longrightarrow> g \<in> set gs \<and> label_id g = i"
  using foldl_index_Some [of Map.empty gs i g] by (simp add: groupByLabelId_def)

lemma groupByLabelId_None:
  "groupByLabelId gs i = None \<longleftrightarrow> (\<forall>g \<in> set gs. label_id g \<noteq> i)"
  using foldl_index_None [of Map.empty gs i] by (simp add: groupByLabelId_def)

lemma map_zip_upt:
  fixes f :: "'x \<Rightarrow> 'y" and xs :: "'x list"
  shows "map (\<lambda>(x, idx). f x) (zip xs [0 ..< length xs]) = map f xs"
proof -
  have z: "map fst (zip xs [0 ..< length xs]) = xs"
    by (rule map_fst_zip) simp
  have "(\<lambda>(x, idx). f x) = f \<circ> (fst :: 'x \<times> nat \<Rightarrow> 'x)"
    by (simp add: fun_eq_iff)
  then have "map (\<lambda>(x, idx). f x) (zip xs [0 ..< length xs]) = map (f \<circ> fst) (zip xs [0 ..< length xs])"
    by simp
  also have "\<dots> = map f (map fst (zip xs [0 ..< length xs]))"
    by (simp only: map_map)
  finally show ?thesis
    by (simp only: z)
qed

lemma result_cards_by_label_id:
  "result_cards st = map (\<lambda>r. (r, groupByLabelId (groups st) (res_label_id r))) (results st)"
  unfolding result_cards_def by (rule map_zip_upt)

lemma handle_block_cases:
  "handle_block parse b st =
     (if block_throws parse b then Inl (projl (handle_block parse b st))
      else (case block_event parse b of
              None \<Rightarrow> Inr st
            | Some event \<Rightarrow>
                Inr (st\<lparr>batchId := ev_batch_id event, completed := ev_completed event,
                        total_count := ev_total event, results := ev_result event # results st\<rparr>)))"
  by (auto simp: handle_block_def block_throws_def block_event_def split: option.splits sum.splits)

lemma handle_blocks_ok:
  "\<forall>b \<in> set bs. \<not> block_throws parse b \<Longrightarrow>
     snd (handle_blocks parse bs st) = None
     \<and> groups (fst (handle_blocks parse bs st)) = groups st
     \<and> results (fst (handle_blocks parse bs st)) =
         rev (map ev_result (List.map_filter (block_event parse) bs)) @ results st"
proof (induction bs arbitrary: st)
  case Nil
  then show ?case by (simp add: List.map_filter_simps)
next
  case (Cons b bs)
  then have nb: "\<not> block_throws parse b" and rest: "\<forall>b \<in> set bs. \<not> block_throws parse b"
    by simp_all
  show ?case
  proof (cases "block_event parse b")
    case None
    then have "handle_block parse b st = Inr st"
      using nb handle_block_cases [of parse b st] by simp
    then show ?thesis
      using Cons.IH [OF rest, of st] None by (simp add: List.map_filter_simps)
  next
    case (Some event)
    let ?st' = "st\<lparr>batchId := ev_batch_id event, completed := ev_completed event,
                    total_count := ev_total event, results := ev_result event # results st\<rparr>"
    have "handle_block parse b st = Inr ?st'"
      using nb Some handle_block_cases [of parse b st] by simp
    then show ?thesis
      using Cons.IH [OF rest, of ?st'] Some by (simp add: List.map_filter_simps)
  qed
qed

lemma handle_blocks_throws:
  "snd (handle_blocks parse bs st) = None \<Longrightarrow> \<forall>b \<in> set bs. \<not> block_throws parse b"
proof (induction bs arbitrary: st)
  case Nil
  then show ?case by simp
next
  case (Cons b bs)
  show ?case
  proof (cases "block_throws parse b")
    case True
    then obtain m where "handle_block parse b st = Inl m"
      using handle_block_cases [of parse b st] by simp
    then show ?thesis using Cons.prems by simp
  next
    case False
    then obtain st' where h: "handle_block parse b st = Inr st'"
      using handle_block_cases [of parse b st] by (auto split: option.splits)
    then have "snd (handle_blocks parse bs st') = None"
      using Cons.prems by simp
    then show ?thesis using Cons.IH False by simp
  qed
qed

lemma mset_map_filter:
  "mset bs' = mset bs \<Longrightarrow> mset (List.map_filter f bs') = mset (List.map_filter f bs)"
proof -
  assume h: "mset bs' = mset bs"
  have "\<And>xs. mset (List.map_filter f xs) = image_mset (the \<circ> f) (filter_mset (\<lambda>x. f x \<noteq> None) (mset xs))"
    by (simp add: List.map_filter_def comp_def)
  then show ?thesis using h by simp
qed

lemma handle_blocks_permuted:
  assumes "mset bs' = mset bs" and "snd (handle_blocks parse bs st) = None"
  shows "snd (handle_blocks parse bs' st) = None
         \<and> mset (result_cards (fst (handle_blocks parse bs' st)))
             = mset (result_cards (fst (handle_blocks parse bs st)))"
proof -
  have ok: "\<forall>b \<in> set bs. \<not> block_throws parse b"
    using assms(2) by (rule handle_blocks_throws)
  have "set bs' = set bs"
    using assms(1) by (rule mset_eq_setD)
  then have ok': "\<forall>b \<in> set bs'. \<not> block_throws parse b"
    using ok by simp
  note a = handle_blocks_ok [OF ok, of st] and b = handle_blocks_ok [OF ok', of st]
  have e: "mset (map ev_result (List.map_filter (block_event parse) bs'))
           = mset (map ev_result (List.map_filter (block_event parse) bs))"
    using mset_map_filter [OF assms(1), of "block_event parse"] by simp
  have r: "mset (results (fst (handle_blocks parse bs' st))) = mset (results (fst (handle_blocks parse bs st)))"
    using a b e by simp
  have g: "groups (fst (handle_blocks parse bs' st)) = groups (fst (handle_blocks parse bs st))"
    using a b by simp
  have "mset (result_cards (fst (handle_blocks parse bs' st)))
          = image_mset (\<lambda>r. (r, groupByLabelId (groups (fst (handle_blocks parse bs st))) (res_label_id r)))
              (mset (results (fst (handle_blocks parse bs' st))))"
    by (simp add: result_cards_by_label_id g)
  also have "\<dots> = mset (result_cards (fst (handle_blocks parse bs st)))"
    by (simp add: result_cards_by_label_id r)
  finally show ?thesis
    using b by simp
qed

lemma groupByLabelId_distinct:
  assumes "distinct (map label_id gs)" and "g \<in> set gs"
  shows "groupByLabelId gs (label_id g) = Some g"
proof -
  have "groupByLabelId gs (label_id g) \<noteq> None"
    using assms(2) by (auto simp: groupByLabelId_None)
  then obtain g' where s: "groupByLabelId gs (label_id g) = Some g'"
    by auto
  then have "g' \<in> set gs" and "label_id g' = label_id g"
    using groupByLabelId_Some [of gs "label_id g" g'] by simp_all
  moreover have "inj_on label_id (set gs)"
    using assms(1) by (simp add: distinct_map)
  ultimately have "g' = g"
    using assms(2) by (auto dest: inj_onD)
  then show ?thesis using s by simp
qed

lemma sample_blocks:
  "snd (handle_blocks sample_parse [''data: A'', ''data: B''] two_groups_state) = None"
  "result_cards (fst (handle_blocks sample_parse [''data: A'', ''data: B''] two_groups_state))
     = [(sample_result ''s0'' FAIL, Some sample_single), (sample_result ''g1'' PASS, Some sample_group)]"
  "result_cards (fst (handle_blocks sample_parse [''data: B'', ''data: A''] two_groups_state))
     = [(sample_result ''g1'' PASS, Some sample_group), (sample_result ''s0'' FAIL, Some sample_single)]"
  by code_simp+

text \<open>
  C8. The card of a result shows the group that the index by \<open>label_id\<close> gives for the
  result's \<open>label_id\<close>; the position of the result plays no part. The group found has that
  very id, none is found exactly when no group has it, and with distinct ids each group is
  the one found for its own id. Blocks handled in another order give the same cards, each
  result with the same group.
\<close>

theorem results_attributed_by_label_id:
  "result_cards st = map (\<lambda>r. (r, groupByLabelId (groups st) (res_label_id r))) (results st)
   \<and> (groupByLabelId gs i = Some g \<longrightarrow> g \<in> set gs \<and> label_id g = i)
   \<and> (groupByLabelId gs i = None \<longleftrightarrow> (\<forall>g \<in> set gs. label_id g \<noteq> i))
   \<and> (distinct (map label_id gs) \<and> g \<in> set gs \<longrightarrow> groupByLabelId gs (label_id g) = Some g)
   \<and> (mset bs' = mset bs \<and> snd (handle_blocks parse bs st) = None \<longrightarrow>
        snd (handle_blocks parse bs' st) = None
        \<and> mset (result_cards (fst (handle_blocks parse bs' st)))
            = mset (result_cards (fst (handle_blocks parse bs st))))"
  using result_cards_by_label_id [of st] groupByLabelId_Some [of gs i g]
    groupByLabelId_None [of gs i] groupByLabelId_distinct [of gs g]
    handle_blocks_permuted [of bs' bs parse st]
  by blast

theorem results_attributed_by_label_id_witness:
  "groupByLabelId [sample_group, sample_single] ''s0'' = Some sample_single
   \<and> sample_single \<in> set [sample_group, sample_single] \<and> label_id sample_single = ''s0''
   \<and> distinct (map label_id [sample_group, sample_single])
   \<and> mset [''data: B'', ''data: A''] = mset [''data: A'', ''data: B'']
   \<and> snd (handle_blocks sample_parse [''data: A'', ''data: B''] two_groups_state) = None
   \<and> snd (handle_blocks sample_parse [''data: B'', ''data: A''] two_groups_state) = None
   \<and> mset (result_cards (fst (handle_blocks sample_parse [''data: B'', ''data: A''] two_groups_state)))
       = mset (result_cards (fst (handle_blocks sample_parse [''data: A'', ''data: B''] two_groups_state)))
   \<and> result_cards (fst (handle_blocks sample_parse [''data: B'', ''data: A''] two_groups_state))
       = [(sample_result ''g1'' PASS, Some sample_group), (sample_result ''s0'' FAIL, Some sample_single)]"
proof -
  have d: "distinct (map label_id [sample_group, sample_single])"
    "sample_single \<in> set [sample_group, sample_single]" "label_id sample_single = ''s0''"
    by (simp_all add: sample_group_def sample_single_def)
  have p: "mset [''data: B'', ''data: A''] = mset [''data: A'', ''data: B'']"
    by simp
  show ?thesis
    using d p sample_blocks
      results_attributed_by_label_id
        [of two_groups_state "[sample_group, sample_single]" "''s0''" sample_single
            "[''data: B'', ''data: A'']" "[''data: A'', ''data: B'']" sample_parse]
    by (simp del: mset.simps)
qed

subsection \<open>Where the read loop ends\<close>

lemma split_from_nonempty: "split_from sep s \<noteq> []"
  by (induction sep s rule: split_from.induct) (auto simp: split_from.simps split: list.splits)

lemma startsWith_append: "startsWith s sep \<Longrightarrow> startsWith (s @ t) sep"
  by (induction s sep rule: startsWith.induct) auto

lemma startsWith_length: "startsWith s sep \<Longrightarrow> length sep \<le> length s"
  by (induction s sep rule: startsWith.induct) auto

lemma split_from_no_match:
  "length s < length sep \<Longrightarrow> split_from sep s = [s]"
proof (induction s)
  case Nil
  then show ?case by (simp add: split_from.simps)
next
  case (Cons c cs)
  then have "\<not> startsWith (c # cs) sep"
    using startsWith_length [of "c # cs" sep] by auto
  then show ?case using Cons by (simp add: split_from.simps)
qed

lemma drop_append_le: "n \<le> length xs \<Longrightarrow> drop n (xs @ t) = drop n xs @ t"
  by simp

lemma split_from_single: "split_from sep s = [p] \<Longrightarrow> p = s"
proof (induction s arbitrary: p)
  case Nil
  then show ?case by (simp add: split_from.simps)
next
  case (Cons c cs)
  show ?case
  proof (cases "sep \<noteq> [] \<and> startsWith (c # cs) sep")
    case True
    then show ?thesis
      using Cons.prems split_from_nonempty [of sep "drop (length sep) (c # cs)"]
      by (simp add: split_from.simps)
  next
    case False
    obtain q qs where sq: "split_from sep cs = q # qs"
      using split_from_nonempty [of sep cs] by (cases "split_from sep cs") auto
    then have "qs = []" and "p = c # q"
      using False Cons.prems by (auto simp: split_from.simps)
    then show ?thesis using Cons.IH [of q] sq by simp
  qed
qed

lemma split_from_append:
  "sep \<noteq> [] \<Longrightarrow>
     split_from sep (s @ t) =
       butlast (split_from sep s) @ split_from sep (last (split_from sep s) @ t)"
proof (induction sep s rule: split_from.induct)
  case (1 sep)
  then show ?case by (simp add: split_from.simps)
next
  case (2 sep c cs)
  show ?case
  proof (cases "startsWith (c # cs) sep")
    case True
    have len: "length sep \<le> length (c # cs)"
      using True by (rule startsWith_length)
    have m: "startsWith ((c # cs) @ t) sep"
      using True by (rule startsWith_append)
    have d: "drop (length sep) ((c # cs) @ t) = drop (length sep) (c # cs) @ t"
      using len drop_append_le [of "length sep" "c # cs" t] by simp
    have "split_from sep ((c # cs) @ t) = [] # split_from sep (drop (length sep) (c # cs) @ t)"
      using m d "2.prems" by (simp add: split_from.simps)
    also have "\<dots> = [] # (butlast (split_from sep (drop (length sep) (c # cs)))
                     @ split_from sep (last (split_from sep (drop (length sep) (c # cs))) @ t))"
      using "2.IH"(1) True "2.prems" by simp
    finally show ?thesis
      using True "2.prems" split_from_nonempty [of sep "drop (length sep) (c # cs)"]
      by (simp add: split_from.simps(2) [of sep c cs])
  next
    case False
    obtain p ps where sp: "split_from sep cs = p # ps"
      using split_from_nonempty [of sep cs] by (cases "split_from sep cs") auto
    have whole: "split_from sep (c # cs) = (c # p) # ps"
      using False sp by (simp add: split_from.simps)
    show ?thesis
    proof (cases "startsWith ((c # cs) @ t) sep")
      case True
      have "\<not> length sep \<le> length (c # cs)"
      proof
        assume le: "length sep \<le> length (c # cs)"
        have "\<And>u. startsWith (u @ t) sep \<Longrightarrow> length sep \<le> length u \<Longrightarrow> startsWith u sep"
        proof -
          fix u show "startsWith (u @ t) sep \<Longrightarrow> length sep \<le> length u \<Longrightarrow> startsWith u sep"
            by (induction u sep rule: startsWith.induct) auto
        qed
        then show False using True le False by blast
      qed
      then have "split_from sep (c # cs) = [c # cs]"
        using split_from_no_match [of "c # cs" sep] by simp
      then show ?thesis by simp
    next
      case nomatch: False
      obtain q qs where sq: "split_from sep (cs @ t) = q # qs"
        using split_from_nonempty [of sep "cs @ t"] by (cases "split_from sep (cs @ t)") auto
      have ih: "split_from sep (cs @ t) = butlast (p # ps) @ split_from sep (last (p # ps) @ t)"
        using "2.IH"(2) False "2.prems" sp by simp
      have lhs: "split_from sep ((c # cs) @ t) = (c # q) # qs"
        using nomatch sq by (simp add: split_from.simps)
      show ?thesis
      proof (cases ps)
        case Nil
        then have "split_from sep (p @ t) = q # qs"
          using ih sq by simp
        moreover have "p = cs"
          using Nil sp split_from_single [of sep cs p] by simp
        ultimately show ?thesis
          using whole Nil lhs nomatch by (simp add: split_from.simps)
      next
        case (Cons r rs)
        then show ?thesis
          using whole lhs ih sq by (cases "butlast (p # ps)") auto
      qed
    qed
  qed
qed

lemma handle_blocks_append:
  "handle_blocks parse (bs @ bs') st =
     (case handle_blocks parse bs st of
        (st', Some message) \<Rightarrow> (st', Some message)
      | (st', None) \<Rightarrow> handle_blocks parse bs' st')"
  by (induction bs arbitrary: st) (simp_all split: sum.splits)

lemma split_from_last:
  "split_from sep (last (split_from sep s)) = [last (split_from sep s)]"
proof (induction sep s rule: split_from.induct)
  case (1 sep)
  then show ?case by (simp add: split_from.simps)
next
  case (2 sep c cs)
  show ?case
  proof (cases "sep \<noteq> [] \<and> startsWith (c # cs) sep")
    case True
    then show ?thesis
      using "2.IH"(1) split_from_nonempty [of sep "drop (length sep) (c # cs)"]
      by (simp add: split_from.simps(2) [of sep c cs])
  next
    case False
    obtain p ps where sp: "split_from sep cs = p # ps"
      using split_from_nonempty [of sep cs] by (cases "split_from sep cs") auto
    have whole: "split_from sep (c # cs) = (c # p) # ps"
      using False sp by (simp add: split_from.simps)
    show ?thesis
    proof (cases ps)
      case Nil
      then have "p = cs" using sp split_from_single [of sep cs p] by simp
      then show ?thesis using whole Nil by simp
    next
      case (Cons r rs)
      then show ?thesis using "2.IH"(2) False sp whole by simp
    qed
  qed
qed

lemma split_append_blocks:
  assumes "sep \<noteq> []"
  shows "butlast (split (s @ t) sep) = butlast (split s sep) @ butlast (split (last (split s sep) @ t) sep)"
    and "last (split (s @ t) sep) = last (split (last (split s sep) @ t) sep)"
  using assms split_from_append [of sep s t] split_from_nonempty [of sep "last (split_from sep s) @ t"]
  by (simp_all add: split_def butlast_append)

lemma read_loop_whole_text:
  "split buffer ''\<newline>\<newline>'' = [buffer] \<Longrightarrow>
   read_loop parse chunks buffer st =
     handle_blocks parse (butlast (split (buffer @ concat chunks) ''\<newline>\<newline>'')) st"
proof (induction chunks arbitrary: buffer st)
  case Nil
  then show ?case by simp
next
  case (Cons c cs)
  let ?sep = "''\<newline>\<newline>''"
  let ?parts = "split (buffer @ c) ?sep"
  have ne: "?sep \<noteq> []" by simp
  have inv: "split (last ?parts) ?sep = [last ?parts]"
    using split_from_last [of ?sep "buffer @ c"] by (simp add: split_def)
  have ih: "\<And>st'. read_loop parse cs (last ?parts) st' =
              handle_blocks parse (butlast (split (last ?parts @ concat cs) ?sep)) st'"
    using Cons.IH [OF inv] by simp
  have "butlast (split (buffer @ concat (c # cs)) ?sep)
          = butlast ?parts @ butlast (split (last ?parts @ concat cs) ?sep)"
    using split_append_blocks(1) [OF ne, of "buffer @ c" "concat cs"] by simp
  then have "handle_blocks parse (butlast (split (buffer @ concat (c # cs)) ?sep)) st =
      (case handle_blocks parse (butlast ?parts) st of
         (st', Some message) \<Rightarrow> (st', Some message)
       | (st', None) \<Rightarrow> handle_blocks parse (butlast (split (last ?parts @ concat cs) ?sep)) st')"
    by (simp only: handle_blocks_append)
  also have "\<dots> = read_loop parse (c # cs) buffer st"
    by (simp add: Let_def ih split: prod.splits option.splits)
  finally show ?case by simp
qed

lemma marker_skipped:
  "data_payload block = Some ''done'' \<Longrightarrow> handle_block parse block st = Inr st"
  by (simp add: handle_block_def)

lemma marker_transparent:
  "data_payload block = Some ''done'' \<Longrightarrow>
     handle_blocks parse (bs @ block # bs') st = handle_blocks parse (bs @ bs') st"
  by (simp add: handle_blocks_append marker_skipped split: prod.splits option.splits)

lemma marker_payload: "data_payload ''data: done'' = Some ''done''"
  by code_simp

lemma marker_chunk_split:
  "split ''data: done\<newline>\<newline>'' ''\<newline>\<newline>'' = [''data: done'', []]"
  by code_simp

lemma marker_chunk_passed:
  "read_loop parse (''data: done\<newline>\<newline>'' # chunks) [] st = read_loop parse chunks [] st"
  by (simp add: marker_chunk_split marker_skipped marker_payload)

lemma startVerification_stream:
  assumes "groups st \<noteq> []"
    and "server (requestLabels (groups st)) = VerifyStream chunks ending"
    and "read_loop parse chunks []
           (st\<lparr>error := [], results := [], batchId := [], completed := 0,
               total_count := length (groups st), busy := True\<rparr>) = (s, thrown)"
  shows "startVerification parse server st =
           (case thrown of
              Some message \<Rightarrow> s\<lparr>error := message, busy := False\<rparr>
            | None \<Rightarrow>
                (case ending of
                   EndOfStream \<Rightarrow> s\<lparr>busy := False\<rparr>
                 | ReadFails message \<Rightarrow> s\<lparr>error := message, busy := False\<rparr>))"
  using assms
  by (simp add: startVerification_def Let_def split: option.splits StreamEnd.splits)

lemma sample_streams:
  "results (startVerification sample_parse marker_then_event two_groups_state)
     = [sample_result ''g1'' PASS]"
  "results (startVerification sample_parse marker_only two_groups_state) = []"
  "results (startVerification sample_parse event_only two_groups_state)
     = [sample_result ''g1'' PASS]"
  "error (startVerification sample_parse event_only two_groups_state) = []"
  "busy (startVerification sample_parse event_only two_groups_state) = False"
  "results (startVerification sample_parse event_then_reset two_groups_state)
     = [sample_result ''g1'' PASS]"
  "error (startVerification sample_parse event_then_reset two_groups_state) = ''network error''"
  by code_simp+

lemma handle_block_throw:
  "data_payload block = Some payload \<Longrightarrow> payload \<noteq> ''done'' \<Longrightarrow> parse payload = Inl message \<Longrightarrow>
     handle_block parse block st = Inl message"
  by (simp add: handle_block_def)

lemma handle_blocks_stop:
  assumes "snd (handle_blocks parse bs st) = None"
    and "handle_block parse block (fst (handle_blocks parse bs st)) = Inl message"
  shows "handle_blocks parse (bs @ block # bs') st = (fst (handle_blocks parse bs st), Some message)"
proof -
  obtain s where h: "handle_blocks parse bs st = (s, None)"
    using assms(1) by (cases "handle_blocks parse bs st") auto
  then show ?thesis
    using assms(2) by (simp add: handle_blocks_append)
qed

lemma handle_block_Inl:
  "handle_block parse block st = Inl message \<Longrightarrow>
     \<exists>payload. data_payload block = Some payload \<and> payload \<noteq> ''done'' \<and> parse payload = Inl message"
  by (auto simp: handle_block_def split: option.splits if_splits sum.splits)

lemma handle_blocks_thrown:
  "snd (handle_blocks parse bs st) = Some message \<Longrightarrow>
     \<exists>bs1 block bs2 payload.
       bs = bs1 @ block # bs2 \<and> snd (handle_blocks parse bs1 st) = None
       \<and> data_payload block = Some payload \<and> payload \<noteq> ''done'' \<and> parse payload = Inl message"
proof (induction bs arbitrary: st)
  case Nil
  then show ?case by simp
next
  case (Cons b bs)
  show ?case
  proof (cases "handle_block parse b st")
    case (Inl m)
    then have "m = message" using Cons.prems by simp
    then obtain payload where
      "data_payload b = Some payload \<and> payload \<noteq> ''done'' \<and> parse payload = Inl message"
      using handle_block_Inl [of parse b st message] Inl by auto
    then have "b # bs = [] @ b # bs \<and> snd (handle_blocks parse [] st) = None
       \<and> data_payload b = Some payload \<and> payload \<noteq> ''done'' \<and> parse payload = Inl message"
      by simp
    then show ?thesis by blast
  next
    case (Inr st')
    then have "snd (handle_blocks parse bs st') = Some message"
      using Cons.prems by simp
    then obtain bs1 block bs2 payload where
      r: "bs = bs1 @ block # bs2" "snd (handle_blocks parse bs1 st') = None"
         "data_payload block = Some payload" "payload \<noteq> ''done''" "parse payload = Inl message"
      using Cons.IH [of st'] by blast
    have "b # bs = (b # bs1) @ block # bs2 \<and> snd (handle_blocks parse (b # bs1) st) = None
       \<and> data_payload block = Some payload \<and> payload \<noteq> ''done'' \<and> parse payload = Inl message"
      using r Inr by simp
    then show ?thesis by blast
  qed
qed

text \<open>
  C7, as the claim states it, fails. In the stream that delivers the end marker and then an
  event, the event is still stored: the outcome differs from that of the stream that stops
  after the marker, so the marker did not end the processing. And a stream with no marker
  at all is processed and finished without an error when the transport ends.
\<close>

theorem end_marker_does_not_stop_the_loop:
  "results (startVerification sample_parse marker_then_event two_groups_state)
     \<noteq> results (startVerification sample_parse marker_only two_groups_state)
   \<and> results (startVerification sample_parse marker_then_event two_groups_state)
       = [sample_result ''g1'' PASS]
   \<and> results (startVerification sample_parse event_only two_groups_state)
       = [sample_result ''g1'' PASS]
   \<and> error (startVerification sample_parse event_only two_groups_state) = []
   \<and> busy (startVerification sample_parse event_only two_groups_state) = False"
  by (simp add: sample_streams)

text \<open>
  C7, amended. The read loop handles, in order, every complete block of the text that the
  transport delivers, however it is cut into chunks, and it stops when the chunks are used
  up or when a payload cannot be parsed; what follows the last blank line is dropped. A block
  whose payload is \<^verbatim>\<open>done\<close> is passed over: it changes nothing, and the blocks after it
  are handled as if it were not there. A block whose payload cannot be parsed throws, the
  blocks after it are not handled, and the loop is left early for no other reason. When no
  payload fails, \<open>startVerification\<close> finishes as the transport does: without an error at
  the end of the stream, and with the failure's message as the error when a read fails.
  When a payload fails, it finishes with what was stored before that block and with the
  message of the failure as the error.
\<close>

theorem read_loop_ends_with_the_transport:
  "read_loop parse chunks [] st
     = handle_blocks parse (butlast (split (concat chunks) ''\<newline>\<newline>'')) st
   \<and> (data_payload block = Some ''done'' \<longrightarrow>
        handle_block parse block st = Inr st
        \<and> handle_blocks parse (bs @ block # bs') st = handle_blocks parse (bs @ bs') st)
   \<and> read_loop parse (''data: done\<newline>\<newline>'' # chunks) [] st = read_loop parse chunks [] st
   \<and> (groups st \<noteq> [] \<and> server (requestLabels (groups st)) = VerifyStream chunks ending
        \<and> read_loop parse chunks []
             (st\<lparr>error := [], results := [], batchId := [], completed := 0,
                 total_count := length (groups st), busy := True\<rparr>) = (s, None) \<longrightarrow>
        startVerification parse server st =
          (case ending of
             EndOfStream \<Rightarrow> s\<lparr>busy := False\<rparr>
           | ReadFails message \<Rightarrow> s\<lparr>error := message, busy := False\<rparr>))
   \<and> (groups st \<noteq> [] \<and> server (requestLabels (groups st)) = VerifyStream chunks ending
        \<and> read_loop parse chunks []
             (st\<lparr>error := [], results := [], batchId := [], completed := 0,
                 total_count := length (groups st), busy := True\<rparr>) = (s, Some thrown) \<longrightarrow>
        startVerification parse server st = s\<lparr>error := thrown, busy := False\<rparr>)
   \<and> (data_payload block = Some payload \<and> payload \<noteq> ''done'' \<and> parse payload = Inl thrown \<longrightarrow>
        handle_block parse block st = Inl thrown
        \<and> (snd (handle_blocks parse bs st) = None \<longrightarrow>
             handle_blocks parse (bs @ block # bs') st
               = (fst (handle_blocks parse bs st), Some thrown)))
   \<and> (snd (handle_blocks parse bs st) = Some thrown \<longrightarrow>
        (\<exists>bs1 failing bs2 text.
           bs = bs1 @ failing # bs2 \<and> snd (handle_blocks parse bs1 st) = None
           \<and> data_payload failing = Some text \<and> text \<noteq> ''done'' \<and> parse text = Inl thrown))
   \<and> (groups st \<noteq> [] \<and> server (requestLabels (groups st)) = VerifyStream chunks ending
        \<and> butlast (split (concat chunks) ''\<newline>\<newline>'') = bs @ block # bs'
        \<and> snd (handle_blocks parse bs
                  (st\<lparr>error := [], results := [], batchId := [], completed := 0,
                      total_count := length (groups st), busy := True\<rparr>)) = None
        \<and> data_payload block = Some payload \<and> payload \<noteq> ''done'' \<and> parse payload = Inl thrown \<longrightarrow>
        startVerification parse server st =
          (fst (handle_blocks parse bs
                  (st\<lparr>error := [], results := [], batchId := [], completed := 0,
                      total_count := length (groups st), busy := True\<rparr>)))
            \<lparr>error := thrown, busy := False\<rparr>)"
proof -
  let ?st2 = "st\<lparr>error := [], results := [], batchId := [], completed := 0,
                 total_count := length (groups st), busy := True\<rparr>"
  have e: "split [] ''\<newline>\<newline>'' = [[]]"
    by (simp add: split_def split_from.simps)
  have whole: "\<And>st'. read_loop parse chunks [] st'
     = handle_blocks parse (butlast (split (concat chunks) ''\<newline>\<newline>'')) st'"
    using read_loop_whole_text [OF e, of parse chunks] by simp
  have a: "read_loop parse chunks [] st
     = handle_blocks parse (butlast (split (concat chunks) ''\<newline>\<newline>'')) st"
    by (rule whole)
  have b: "data_payload block = Some ''done'' \<longrightarrow>
        handle_block parse block st = Inr st
        \<and> handle_blocks parse (bs @ block # bs') st = handle_blocks parse (bs @ bs') st"
    using marker_skipped [of block parse st] marker_transparent [of block parse bs bs' st]
    by blast
  have c: "groups st \<noteq> [] \<and> server (requestLabels (groups st)) = VerifyStream chunks ending
        \<and> read_loop parse chunks [] ?st2 = (s, None) \<longrightarrow>
        startVerification parse server st =
          (case ending of
             EndOfStream \<Rightarrow> s\<lparr>busy := False\<rparr>
           | ReadFails message \<Rightarrow> s\<lparr>error := message, busy := False\<rparr>)"
    using startVerification_stream [of st server chunks ending parse s None] by simp
  have d: "groups st \<noteq> [] \<and> server (requestLabels (groups st)) = VerifyStream chunks ending
        \<and> read_loop parse chunks [] ?st2 = (s, Some thrown) \<longrightarrow>
        startVerification parse server st = s\<lparr>error := thrown, busy := False\<rparr>"
    using startVerification_stream [of st server chunks ending parse s "Some thrown"] by simp
  have f: "data_payload block = Some payload \<and> payload \<noteq> ''done'' \<and> parse payload = Inl thrown \<longrightarrow>
        handle_block parse block st = Inl thrown
        \<and> (snd (handle_blocks parse bs st) = None \<longrightarrow>
             handle_blocks parse (bs @ block # bs') st
               = (fst (handle_blocks parse bs st), Some thrown))"
    using handle_block_throw [of block payload parse thrown]
      handle_blocks_stop [of parse bs st block thrown bs']
    by blast
  have g: "snd (handle_blocks parse bs st) = Some thrown \<longrightarrow>
        (\<exists>bs1 failing bs2 text.
           bs = bs1 @ failing # bs2 \<and> snd (handle_blocks parse bs1 st) = None
           \<and> data_payload failing = Some text \<and> text \<noteq> ''done'' \<and> parse text = Inl thrown)"
    using handle_blocks_thrown [of parse bs st thrown] by blast
  have h: "groups st \<noteq> [] \<and> server (requestLabels (groups st)) = VerifyStream chunks ending
        \<and> butlast (split (concat chunks) ''\<newline>\<newline>'') = bs @ block # bs'
        \<and> snd (handle_blocks parse bs ?st2) = None
        \<and> data_payload block = Some payload \<and> payload \<noteq> ''done'' \<and> parse payload = Inl thrown \<longrightarrow>
        startVerification parse server st =
          (fst (handle_blocks parse bs ?st2))\<lparr>error := thrown, busy := False\<rparr>"
  proof
    assume p: "groups st \<noteq> [] \<and> server (requestLabels (groups st)) = VerifyStream chunks ending
        \<and> butlast (split (concat chunks) ''\<newline>\<newline>'') = bs @ block # bs'
        \<and> snd (handle_blocks parse bs ?st2) = None
        \<and> data_payload block = Some payload \<and> payload \<noteq> ''done'' \<and> parse payload = Inl thrown"
    then have t: "handle_block parse block (fst (handle_blocks parse bs ?st2)) = Inl thrown"
      using handle_block_throw [of block payload parse thrown] by blast
    have "read_loop parse chunks [] ?st2 = handle_blocks parse (bs @ block # bs') ?st2"
      using whole [of ?st2] p by simp
    also have "\<dots> = (fst (handle_blocks parse bs ?st2), Some thrown)"
    proof -
      have n: "snd (handle_blocks parse bs ?st2) = None" using p by blast
      show ?thesis by (rule handle_blocks_stop [OF n t])
    qed
    finally have "read_loop parse chunks [] ?st2 = (fst (handle_blocks parse bs ?st2), Some thrown)" .
    then show "startVerification parse server st =
          (fst (handle_blocks parse bs ?st2))\<lparr>error := thrown, busy := False\<rparr>"
      using p startVerification_stream
        [of st server chunks ending parse "fst (handle_blocks parse bs ?st2)" "Some thrown"]
      by simp
  qed
  show ?thesis
    using a b c d f g h marker_chunk_passed [of parse chunks st] by blast
qed

lemma sample_loop:
  "groups two_groups_state \<noteq> []"
  "event_then_reset (requestLabels (groups two_groups_state))
     = VerifyStream [''data: A\<newline>\<newline>''] (ReadFails ''network error'')"
  "snd (read_loop sample_parse [''data: A\<newline>\<newline>''] []
         (two_groups_state\<lparr>error := [], results := [], batchId := [], completed := 0,
             total_count := length (groups two_groups_state), busy := True\<rparr>)) = None"
  "results (fst (handle_blocks sample_parse [''data: A'', ''data: B''] two_groups_state))
     = [sample_result ''s0'' FAIL, sample_result ''g1'' PASS]"
  by code_simp+

lemma sample_failure:
  "event_then_garbage (requestLabels (groups two_groups_state))
     = VerifyStream [''data: A\<newline>\<newline>data: X\<newline>\<newline>'', ''data: B\<newline>\<newline>'']
         EndOfStream"
  "butlast (split (concat [''data: A\<newline>\<newline>data: X\<newline>\<newline>'', ''data: B\<newline>\<newline>''])
              ''\<newline>\<newline>'')
     = [''data: A'', ''data: X'', ''data: B'']"
  "snd (handle_blocks sample_parse [''data: A'']
         (two_groups_state\<lparr>error := [], results := [], batchId := [], completed := 0,
             total_count := length (groups two_groups_state), busy := True\<rparr>)) = None"
  "snd (handle_blocks sample_parse [''data: A''] two_groups_state) = None"
  "results (fst (handle_blocks sample_parse [''data: A'']
         (two_groups_state\<lparr>error := [], results := [], batchId := [], completed := 0,
             total_count := length (groups two_groups_state), busy := True\<rparr>)))
     = [sample_result ''g1'' PASS]"
  "data_payload ''data: X'' = Some ''X''"
  "sample_parse ''X'' = Inl ''Unexpected token''"
  by code_simp+

theorem read_loop_ends_with_the_transport_witness:
  "data_payload ''data: done'' = Some ''done''
   \<and> handle_block sample_parse ''data: done'' two_groups_state = Inr two_groups_state
   \<and> results (fst (handle_blocks sample_parse ([''data: A''] @ ''data: done'' # [''data: B''])
                     two_groups_state))
       = [sample_result ''s0'' FAIL, sample_result ''g1'' PASS]
   \<and> groups two_groups_state \<noteq> []
   \<and> event_then_reset (requestLabels (groups two_groups_state))
       = VerifyStream [''data: A\<newline>\<newline>''] (ReadFails ''network error'')
   \<and> error (startVerification sample_parse event_then_reset two_groups_state) = ''network error''
   \<and> busy (startVerification sample_parse event_then_reset two_groups_state) = False
   \<and> data_payload ''data: X'' = Some ''X'' \<and> ''X'' \<noteq> ''done''
   \<and> sample_parse ''X'' = Inl ''Unexpected token''
   \<and> handle_block sample_parse ''data: X'' two_groups_state = Inl ''Unexpected token''
   \<and> snd (handle_blocks sample_parse [''data: A''] two_groups_state) = None
   \<and> handle_blocks sample_parse ([''data: A''] @ ''data: X'' # [''data: B'']) two_groups_state
       = (fst (handle_blocks sample_parse [''data: A''] two_groups_state), Some ''Unexpected token'')
   \<and> event_then_garbage (requestLabels (groups two_groups_state))
       = VerifyStream [''data: A\<newline>\<newline>data: X\<newline>\<newline>'', ''data: B\<newline>\<newline>'']
           EndOfStream
   \<and> error (startVerification sample_parse event_then_garbage two_groups_state)
       = ''Unexpected token''
   \<and> results (startVerification sample_parse event_then_garbage two_groups_state)
       = [sample_result ''g1'' PASS]
   \<and> busy (startVerification sample_parse event_then_garbage two_groups_state) = False"
proof -
  let ?st2 = "two_groups_state\<lparr>error := [], results := [], batchId := [], completed := 0,
                 total_count := length (groups two_groups_state), busy := True\<rparr>"
  let ?garbage = "[''data: A\<newline>\<newline>data: X\<newline>\<newline>'', ''data: B\<newline>\<newline>'']"
  obtain s where r: "read_loop sample_parse [''data: A\<newline>\<newline>''] [] ?st2 = (s, None)"
    using sample_loop(3) by (cases "read_loop sample_parse [''data: A\<newline>\<newline>''] [] ?st2") auto
  have x: "''X'' \<noteq> ''done''"
    by simp
  have blocks: "butlast (split (concat ?garbage) ''\<newline>\<newline>'')
                  = [''data: A''] @ ''data: X'' # [''data: B'']"
    using sample_failure(2) by simp
  note first =
    read_loop_ends_with_the_transport
      [where parse = sample_parse and chunks = "[''data: A\<newline>\<newline>'']"
         and st = two_groups_state and block = "''data: done''" and bs = "[''data: A'']"
         and bs' = "[''data: B'']" and server = event_then_reset
         and ending = "ReadFails ''network error''" and s = s]
  note second =
    read_loop_ends_with_the_transport
      [where parse = sample_parse and chunks = ?garbage
         and st = two_groups_state and block = "''data: X''" and bs = "[''data: A'']"
         and bs' = "[''data: B'']" and server = event_then_garbage
         and ending = EndOfStream and thrown = "''Unexpected token''" and payload = "''X''"]
  have started: "startVerification sample_parse event_then_garbage two_groups_state
          = (fst (handle_blocks sample_parse [''data: A''] ?st2))
              \<lparr>error := ''Unexpected token'', busy := False\<rparr>"
    using second sample_loop(1) sample_failure(1,3,6,7) x blocks by blast
  have stopped: "handle_block sample_parse ''data: X'' two_groups_state = Inl ''Unexpected token''
      \<and> handle_blocks sample_parse ([''data: A''] @ ''data: X'' # [''data: B'']) two_groups_state
          = (fst (handle_blocks sample_parse [''data: A''] two_groups_state), Some ''Unexpected token'')"
    using second sample_failure(4,6,7) x by blast
  show ?thesis
    using marker_payload sample_loop(1,2,4) r first started stopped sample_failure x
    by simp
qed

subsection \<open>The Government Warning matcher\<close>

lemma canonical_fixed: "normalize_whitespace CANONICAL_WARNING = CANONICAL_WARNING"
  by code_simp

lemma sample_warnings:
  "normalize_whitespace warning_line_broken = CANONICAL_WARNING"
  "normalize_whitespace warning_lowercase_heading \<noteq> CANONICAL_WARNING"
  "normalize_whitespace warning_without_comma \<noteq> CANONICAL_WARNING"
  "normalize_whitespace warning_truncated \<noteq> CANONICAL_WARNING"
  "normalize_whitespace warning_reordered \<noteq> CANONICAL_WARNING"
  by code_simp+

lemma words_from_space:
  "is_space c \<Longrightarrow> words_from acc (a @ c # b) = words_from acc a @ words_from [] b"
  by (induction a arbitrary: acc) simp_all

lemma words_from_word:
  "\<forall>c \<in> set w. \<not> is_space c \<Longrightarrow> words_from acc (w @ t) = words_from (rev w @ acc) t"
  by (induction w arbitrary: acc) simp_all

lemma words_from_plain:
  "(\<forall>c \<in> set acc. \<not> is_space c) \<Longrightarrow> list_all plain_word (words_from acc t)"
  by (induction t arbitrary: acc) (auto simp: plain_word_def)

lemma words_from_join:
  "list_all plain_word ws \<Longrightarrow> words_from [] (join_words ws) = ws"
proof (induction ws rule: join_words.induct)
  case 1
  then show ?case by simp
next
  case (2 w)
  then have "words_from [] (w @ []) = words_from (rev w @ []) []"
    using words_from_word [of w "[]" "[]"] by (simp add: plain_word_def)
  then show ?case using 2 by (simp add: plain_word_def)
next
  case (3 w v vs)
  have sp: "is_space CHR '' ''" by (simp add: is_space_def)
  have "words_from [] (w @ CHR '' '' # join_words (v # vs))
          = words_from [] w @ words_from [] (join_words (v # vs))"
    using words_from_space [OF sp, of "[]" w "join_words (v # vs)"] by simp
  moreover have "words_from [] w = [w]"
    using 3(2) words_from_word [of w "[]" "[]"] by (simp add: plain_word_def)
  ultimately show ?case using 3 by simp
qed

lemma normalize_idempotent:
  "normalize_whitespace (normalize_whitespace text) = normalize_whitespace text"
  using words_from_join [OF words_from_plain [of "[]" "text"]]
  by (simp add: normalize_whitespace_def)

lemma normalize_blank:
  "is_space c \<Longrightarrow> is_space c' \<Longrightarrow>
     normalize_whitespace (a @ c # b) = normalize_whitespace (a @ c' # b)
     \<and> normalize_whitespace (a @ c # c' # b) = normalize_whitespace (a @ c # b)"
  by (simp add: normalize_whitespace_def words_from_space)

text \<open>
  C1. The matcher normalises blanks and line breaks and then asks for equality, character
  for character and with case, with the one canonical string. The canonical text passes,
  also when it is broken into lines; every text that differs from it after the normalisation
  fails; the matcher never answers escalate or unreadable. The normalisation changes a
  normalised text no more, and the answer is the same when one blank or line break is put
  for another or is doubled.
\<close>

theorem government_warning_exact_match:
  "government_warning_matcher CANONICAL_WARNING = VPass
   \<and> (normalize_whitespace text \<noteq> CANONICAL_WARNING \<longrightarrow> government_warning_matcher text = VFail)
   \<and> (normalize_whitespace text = CANONICAL_WARNING \<longrightarrow> government_warning_matcher text = VPass)
   \<and> government_warning_matcher text \<noteq> VEscalate
   \<and> government_warning_matcher text \<noteq> VUnreadable
   \<and> normalize_whitespace (normalize_whitespace text) = normalize_whitespace text
   \<and> (is_space c \<and> is_space c' \<longrightarrow>
        government_warning_matcher (a @ c # b) = government_warning_matcher (a @ c' # b)
        \<and> government_warning_matcher (a @ c # c' # b) = government_warning_matcher (a @ c # b))"
  using normalize_idempotent [of "text"] normalize_blank [of c c' a b]
  by (simp add: government_warning_matcher_def canonical_fixed)

theorem government_warning_exact_match_witness:
  "normalize_whitespace warning_lowercase_heading \<noteq> CANONICAL_WARNING
   \<and> government_warning_matcher warning_lowercase_heading = VFail
   \<and> government_warning_matcher warning_without_comma = VFail
   \<and> government_warning_matcher warning_truncated = VFail
   \<and> government_warning_matcher warning_reordered = VFail
   \<and> normalize_whitespace warning_line_broken = CANONICAL_WARNING
   \<and> government_warning_matcher warning_line_broken = VPass
   \<and> is_space CHR '' '' \<and> is_space CHR 0x0A
   \<and> government_warning_matcher (''GOVERNMENT'' @ CHR '' '' # ''WARNING:'')
       = government_warning_matcher (''GOVERNMENT'' @ CHR 0x0A # ''WARNING:'')"
proof -
  have sp: "is_space CHR '' '' \<and> is_space CHR 0x0A"
    by (simp add: is_space_def)
  show ?thesis
    using sample_warnings sp
      government_warning_exact_match [of warning_lowercase_heading]
      government_warning_exact_match [of warning_without_comma]
      government_warning_exact_match [of warning_truncated]
      government_warning_exact_match [of warning_reordered]
      government_warning_exact_match
        [of warning_line_broken "CHR '' ''" "CHR 0x0A" "''GOVERNMENT''" "''WARNING:''"]
    by simp
qed

subsection \<open>Provider errors and the overall status\<close>

lemma derive_not_error: "derive_overall_status False vs amb \<noteq> ERROR"
  by (simp add: derive_overall_status_def)

lemma derive_not_retry: "derive_overall_status err vs amb \<noteq> RETRY"
  by (simp add: derive_overall_status_def)

lemma resolver_status:
  "verdict_status (resolver rules infer requested outcome) \<noteq> RETRY
   \<and> (verdict_status (resolver rules infer requested outcome) = ERROR
        \<longleftrightarrow> (\<exists>e. outcome = ErrorOutcome e))"
  by (cases outcome)
     (simp_all add: resolver_def resolve_fields_def Let_def derive_not_error derive_not_retry,
      simp add: derive_overall_status_def)




lemma work_unit_split:
  "work_unit gateway collect rules infer label =
     (resolver rules infer (beverage_type label)
        (fst (extraction_state_machine gateway collect label)),
      snd (extraction_state_machine gateway collect label))"
  by (simp add: work_unit_def split: prod.splits)


lemma slow_gateway_passes:
  "verdict_status (fst (work_unit slow_gateway sample_collect sample_rules sample_infer sample_group))
     = PASS"
  "snd (work_unit slow_gateway sample_collect sample_rules sample_infer sample_group)
     = [Standard, DegradedImageSpecialized]"
  by code_simp+



lemma handle_block_results:
  assumes "\<And>payload event. parse payload = Inr event \<Longrightarrow> P (ev_result event)"
    and "list_all P (results st)" and "handle_block parse b st = Inr st'"
  shows "list_all P (results st')"
  using assms
  by (auto simp: handle_block_def split: option.splits if_splits sum.splits)

lemma handle_blocks_results:
  assumes "\<And>payload event. parse payload = Inr event \<Longrightarrow> P (ev_result event)"
  shows "list_all P (results st) \<Longrightarrow> list_all P (results (fst (handle_blocks parse bs st)))"
proof (induction bs arbitrary: st)
  case Nil
  then show ?case by simp
next
  case (Cons b bs)
  show ?case
  proof (cases "handle_block parse b st")
    case (Inl m)
    then show ?thesis using Cons.prems by simp
  next
    case (Inr st')
    then have "list_all P (results st')"
      using handle_block_results [of parse P st b st'] assms Cons.prems by blast
    then show ?thesis using Cons.IH Inr by simp
  qed
qed

lemma startVerification_results:
  assumes "\<And>payload event. parse payload = Inr event \<Longrightarrow> P (ev_result event)"
  shows "list_all P (results (startVerification parse server st))"
proof (cases "groups st = []")
  case True
  then show ?thesis by (simp add: startVerification_def Let_def)
next
  case False
  let ?st2 = "st\<lparr>error := [], results := [], batchId := [], completed := 0,
                 total_count := length (groups st), busy := True\<rparr>"
  show ?thesis
  proof (cases "server (requestLabels (groups st))")
    case (VerifyThrows m)
    with False show ?thesis by (simp add: startVerification_def Let_def)
  next
    case (VerifyNotOk d)
    with False show ?thesis by (simp add: startVerification_def Let_def)
  next
    case (VerifyStream chunks ending)
    obtain s thrown where r: "read_loop parse chunks [] ?st2 = (s, thrown)"
      by (cases "read_loop parse chunks [] ?st2")
    have e: "split [] ''\<newline>\<newline>'' = [[]]"
      by (simp add: split_def split_from.simps)
    have "s = fst (handle_blocks parse (butlast (split (concat chunks) ''\<newline>\<newline>'')) ?st2)"
      using r read_loop_whole_text [OF e, of parse chunks ?st2] by simp
    moreover have "list_all P (results ?st2)" by simp
    ultimately have "list_all P (results s)"
      using handle_blocks_results [of parse P ?st2] assms by blast
    then show ?thesis
      using False VerifyStream r
        startVerification_stream [of st server chunks ending parse s thrown]
      by (simp split: option.splits StreamEnd.splits)
  qed
qed

text \<open>
  C3. The overall status that a work unit gives is one of \<open>PASS\<close>, \<open>FAIL\<close>, \<open>ESCALATE\<close>
  and \<open>ERROR\<close>, never \<open>RETRY\<close>. The client stores the results of the events as they come,
  so when no event carries \<open>RETRY\<close>, no result it shows does.
\<close>

theorem emitted_status_is_never_retry:
  "verdict_status (fst (work_unit gateway collect rules infer label)) \<in> {PASS, FAIL, ESCALATE, ERROR}
   \<and> verdict_status (fst (work_unit gateway collect rules infer label)) \<noteq> RETRY
   \<and> ((\<forall>payload event. parse payload = Inr event \<longrightarrow> overall_status (ev_result event) \<noteq> RETRY) \<longrightarrow>
        (\<forall>r \<in> set (results (startVerification parse server st)). overall_status r \<noteq> RETRY))"
proof -
  have a: "verdict_status (fst (work_unit gateway collect rules infer label)) \<noteq> RETRY"
    using resolver_status [of rules infer "beverage_type label"
        "fst (extraction_state_machine gateway collect label)"]
    by (simp add: work_unit_split)
  then have b: "verdict_status (fst (work_unit gateway collect rules infer label))
                  \<in> {PASS, FAIL, ESCALATE, ERROR}"
    by (cases "verdict_status (fst (work_unit gateway collect rules infer label))") simp_all
  have c: "(\<forall>payload event. parse payload = Inr event \<longrightarrow> overall_status (ev_result event) \<noteq> RETRY) \<longrightarrow>
        (\<forall>r \<in> set (results (startVerification parse server st)). overall_status r \<noteq> RETRY)"
  proof
    assume h: "\<forall>payload event. parse payload = Inr event \<longrightarrow> overall_status (ev_result event) \<noteq> RETRY"
    have "list_all (\<lambda>r. overall_status r \<noteq> RETRY) (results (startVerification parse server st))"
      using startVerification_results [of parse "\<lambda>r. overall_status r \<noteq> RETRY" server st] h by blast
    then show "\<forall>r \<in> set (results (startVerification parse server st)). overall_status r \<noteq> RETRY"
      by (simp add: list_all_iff)
  qed
  show ?thesis using a b c by blast
qed

lemma sample_parse_statuses:
  "\<forall>payload event. sample_parse payload = Inr event \<longrightarrow> overall_status (ev_result event) \<noteq> RETRY"
  by (auto simp: sample_parse_def sample_result_def split: if_splits)

theorem emitted_status_is_never_retry_witness:
  "\<not> (\<exists>payload event. sample_parse payload = Inr event \<and> overall_status (ev_result event) = RETRY)
   \<and> sample_result ''g1'' PASS \<in> set (results (startVerification sample_parse marker_then_event two_groups_state))
   \<and> overall_status (sample_result ''g1'' PASS) \<noteq> RETRY
   \<and> verdict_status (fst (work_unit slow_gateway sample_collect sample_rules sample_infer sample_group)) = PASS
   \<and> verdict_status (fst (work_unit failing_gateway sample_collect sample_rules sample_infer sample_group)) \<noteq> RETRY"
  using sample_parse_statuses sample_streams(1) slow_gateway_passes(1)
    emitted_status_is_never_retry
      [of failing_gateway sample_collect sample_rules sample_infer sample_group sample_parse
          marker_then_event two_groups_state]
  by simp

end
